theory Spec2Isabelle
  imports Complex_Main
begin

section \<open>Dates and instants\<close>

text \<open>
  A JavaScript \<open>Date\<close> holds a time value: milliseconds since 1970-01-01T00:00Z.
  The browser's time zone is a fixed offset \<open>tz\<close>, in minutes east of UTC (the negated
  \<open>getTimezoneOffset()\<close>); daylight-saving changes are not modelled. The current time
  \<open>now\<close> (what \<open>new Date()\<close> reads) is a parameter of every function that reads the clock.

  A date string \<open>'YYYY-MM-DD'\<close> is represented by the number of its calendar day, counted
  from 1970-01-01 = 0. The numbers of JavaScript are exact reals.
\<close>

type_synonym instant = int
type_synonym day = int

definition MS_PER_DAY :: int where
  "MS_PER_DAY = 1000 * 60 * 60 * 24"

text \<open>The local calendar day an instant falls on (what \<open>getFullYear/getMonth/getDate\<close> read).\<close>

definition localDay :: "int \<Rightarrow> instant \<Rightarrow> day" where
  "localDay tz t = (t + tz * 60000) div MS_PER_DAY"

text \<open>\<open>date.setHours(0, 0, 0, 0)\<close>: local midnight of the local day of \<open>date\<close>.\<close>

definition setHours0 :: "int \<Rightarrow> instant \<Rightarrow> instant" where
  "setHours0 tz t = localDay tz t * MS_PER_DAY - tz * 60000"

text \<open>\<open>date.setDate(date.getDate() + n)\<close>: the same local time of day, \<open>n\<close> days later.\<close>

definition setDatePlus :: "instant \<Rightarrow> int \<Rightarrow> instant" where
  "setDatePlus t n = t + n * MS_PER_DAY"

text \<open>\<open>new Date('YYYY-MM-DD')\<close>: a date-only string is read as midnight UTC of that day.\<close>

definition parseDate :: "day \<Rightarrow> instant" where
  "parseDate d = d * MS_PER_DAY"

text \<open>\<open>Math.round\<close>: the nearest integer, a tie going to the larger one.\<close>

definition Math_round :: "real \<Rightarrow> int" where
  "Math_round x = \<lfloor>x + 1 / 2\<rfloor>"

text \<open>\<open>formatDateForInput(date)\<close>: the local year, month and day of \<open>date\<close> as a string.\<close>

definition formatDateForInput :: "int \<Rightarrow> instant \<Rightarrow> day" where
  "formatDateForInput tz date = localDay tz date"

definition getToday :: "int \<Rightarrow> instant \<Rightarrow> day" where
  "getToday tz now = formatDateForInput tz now"

definition getDaysAgo :: "int \<Rightarrow> instant \<Rightarrow> int \<Rightarrow> day" where
  "getDaysAgo tz now days = formatDateForInput tz (setDatePlus now (- days))"

definition isDateInRange :: "int \<Rightarrow> instant \<Rightarrow> day \<Rightarrow> int \<Rightarrow> bool" where
  "isDateInRange tz now dateString daysBack =
     (let today = setHours0 tz now;
          checkDate = setHours0 tz (parseDate dateString);
          minDate = setDatePlus today (- daysBack)
      in checkDate \<ge> minDate \<and> checkDate \<le> today)"

subsection \<open>The calendar of the runtime\<close>

text \<open>
  The proleptic Gregorian calendar behind \<open>getFullYear\<close>, \<open>getMonth\<close> (0-based) and
  \<open>new Date(year, month, day)\<close>, on day numbers.
\<close>

definition civil_from_days :: "day \<Rightarrow> int \<times> int \<times> int" where
  "civil_from_days z0 =
     (let z = z0 + 719468;
          era = z div 146097;
          doe = z - era * 146097;
          yoe = (doe - doe div 1460 + doe div 36524 - doe div 146096) div 365;
          doy = doe - (365 * yoe + yoe div 4 - yoe div 100);
          mp = (5 * doy + 2) div 153;
          d = doy - (153 * mp + 2) div 5 + 1;
          m = (if mp < 10 then mp + 3 else mp - 9);
          y = yoe + era * 400 + (if m \<le> 2 then 1 else 0)
      in (y, m, d))"

definition days_from_civil :: "int \<Rightarrow> int \<Rightarrow> int \<Rightarrow> day" where
  "days_from_civil y0 m d =
     (let y = (if m \<le> 2 then y0 - 1 else y0);
          era = y div 400;
          yoe = y - era * 400;
          doy = (153 * (if m > 2 then m - 3 else m + 9) + 2) div 5 + d - 1;
          doe = yoe * 365 + yoe div 4 - yoe div 100 + doy
      in era * 146097 + doe - 719468)"

definition getFullYear :: "int \<Rightarrow> instant \<Rightarrow> int" where
  "getFullYear tz t = fst (civil_from_days (localDay tz t))"

definition getMonth :: "int \<Rightarrow> instant \<Rightarrow> int" where
  "getMonth tz t = fst (snd (civil_from_days (localDay tz t))) - 1"

definition getDate :: "int \<Rightarrow> instant \<Rightarrow> int" where
  "getDate tz t = snd (snd (civil_from_days (localDay tz t)))"

text \<open>\<open>new Date(year, month, day)\<close>: local midnight of that day, the month 0-based.\<close>

definition newDate :: "int \<Rightarrow> int \<Rightarrow> int \<Rightarrow> int \<Rightarrow> instant" where
  "newDate tz y m d = days_from_civil y (m + 1) d * MS_PER_DAY - tz * 60000"

definition getMonthStart :: "int \<Rightarrow> instant \<Rightarrow> instant" where
  "getMonthStart tz now = newDate tz (getFullYear tz now) (getMonth tz now) 1"

definition getDaysPassedThisMonth :: "int \<Rightarrow> instant \<Rightarrow> int" where
  "getDaysPassedThisMonth tz now = getDate tz now"

section \<open>Reading log entries and statistics\<close>

record log_entry =
  row_id :: string
  user_id :: string
  log_date :: day
  pages_read :: real
  updated_at :: instant

record streaks =
  currentStreak :: nat
  longestStreak :: nat

record stats = streaks +
  totalPages :: real
  daysLogged :: nat
  avgPages :: int

text \<open>
  The \<open>while (true)\<close> loop of \<open>calculateStreaks\<close>: \<open>checkDate\<close> walks back one day at a
  time for as long as its day is in \<open>loggedDates\<close>.
\<close>

function streakLoop :: "int \<Rightarrow> day list \<Rightarrow> instant \<Rightarrow> nat \<Rightarrow> nat" where
  "streakLoop tz loggedDates checkDate streak =
     (if formatDateForInput tz checkDate \<in> set loggedDates
      then streakLoop tz loggedDates (setDatePlus checkDate (- 1)) (streak + 1)
      else streak)"
  by pat_completeness auto

termination streakLoop
proof (relation "measure (\<lambda>(tz, ds, t, c). nat (localDay tz t - Min (set ds) + 1))")
  show "wf (measure (\<lambda>(tz, ds, t, c). nat (localDay tz t - Min (set ds) + 1)))"
    by simp
next
  fix tz :: int and loggedDates :: "day list" and checkDate :: instant and streak :: nat
  assume "formatDateForInput tz checkDate \<in> set loggedDates"
  then have "Min (set loggedDates) \<le> localDay tz checkDate"
    by (simp add: formatDateForInput_def)
  moreover have "localDay tz (setDatePlus checkDate (- 1)) = localDay tz checkDate - 1"
  proof -
    have "checkDate + - 1 * MS_PER_DAY + tz * 60000 = (checkDate + tz * 60000) + - 1 * MS_PER_DAY"
      by simp
    then show ?thesis
      unfolding localDay_def setDatePlus_def by (simp add: MS_PER_DAY_def)
  qed
  ultimately show "((tz, loggedDates, setDatePlus checkDate (- 1), streak + 1),
              (tz, loggedDates, checkDate, streak))
             \<in> measure (\<lambda>(tz, ds, t, c). nat (localDay tz t - Min (set ds) + 1))"
    by simp
qed

declare streakLoop.simps [simp del]

text \<open>
  One pass of the \<open>for (const log of sortedLogs)\<close> loop; the state is
  \<open>(longestStreak, tempStreak, prevDate)\<close>, \<open>prevDate\<close> being \<open>null\<close> before the first entry.
\<close>

definition longestStep :: "int \<Rightarrow> nat \<times> nat \<times> instant option \<Rightarrow> log_entry
    \<Rightarrow> nat \<times> nat \<times> instant option" where
  "longestStep tz st entry =
     (case st of (longest, temp, prevDate) \<Rightarrow>
        (let currentDate = setHours0 tz (parseDate (log_date entry)) in
         case prevDate of
           Some prev \<Rightarrow>
             (let dayDiff = Math_round (real_of_int (currentDate - prev) / real_of_int MS_PER_DAY) in
              if dayDiff = 1 then (longest, temp + 1, Some currentDate)
              else (max longest temp, 1, Some currentDate))
         | None \<Rightarrow> (longest, 1, Some currentDate)))"

definition calculateStreaks :: "int \<Rightarrow> instant \<Rightarrow> log_entry list \<Rightarrow> streaks" where
  "calculateStreaks tz now logs =
     (if logs = [] then \<lparr>currentStreak = 0, longestStreak = 0\<rparr>
      else
        (let sortedLogs = sort_key (\<lambda>l. parseDate (log_date l)) logs;
             loggedDates = map log_date sortedLogs;
             checkDate0 = setHours0 tz now;
             todayStr = formatDateForInput tz checkDate0;
             checkDate = (if todayStr \<notin> set loggedDates then setDatePlus checkDate0 (- 1)
                          else checkDate0);
             current = streakLoop tz loggedDates checkDate 0;
             (longest, temp, prevDate) = foldl (longestStep tz) (0, 0, None) sortedLogs
         in \<lparr>currentStreak = current, longestStreak = max longest temp\<rparr>))"

definition calculateStats :: "int \<Rightarrow> instant \<Rightarrow> log_entry list \<Rightarrow> stats" where
  "calculateStats tz now logs =
     (if logs = [] then
        \<lparr>currentStreak = 0, longestStreak = 0, totalPages = 0, daysLogged = 0, avgPages = 0\<rparr>
      else
        (let total = foldl (\<lambda>acc entry. acc + pages_read entry) 0 logs;
             days = length logs;
             avg = Math_round (total / real days);
             s = calculateStreaks tz now logs
         in \<lparr>currentStreak = currentStreak s, longestStreak = longestStreak s,
             totalPages = total, daysLogged = days, avgPages = avg\<rparr>))"

subsection \<open>The longest streak as the specification words it\<close>

text \<open>
  The distinct log dates sorted ascending, scanned pair by pair: a gap of exactly one day
  extends the running streak, any other gap resets it to 1, and the greatest run is kept.
\<close>

fun scanPairs :: "day list \<Rightarrow> nat \<Rightarrow> nat \<Rightarrow> nat" where
  "scanPairs (a # b # ds) run best =
     (let run' = (if b - a = 1 then run + 1 else 1)
      in scanPairs (b # ds) run' (max best run'))"
| "scanPairs ds run best = best"

definition spec_longestStreak :: "day list \<Rightarrow> nat" where
  "spec_longestStreak dates =
     (case sort (remdups dates) of [] \<Rightarrow> 0 | ds \<Rightarrow> scanPairs ds 1 1)"

text \<open>The loop of \<open>calculateStreaks\<close> on day numbers instead of instants.\<close>

definition dayStep :: "nat \<times> nat \<times> day option \<Rightarrow> day \<Rightarrow> nat \<times> nat \<times> day option" where
  "dayStep st d =
     (case st of (longest, temp, prev) \<Rightarrow>
        (case prev of
           Some p \<Rightarrow> if d - p = 1 then (longest, temp + 1, Some d) else (max longest temp, 1, Some d)
         | None \<Rightarrow> (longest, 1, Some d)))"

text \<open>The day the backward walk of the current streak starts from.\<close>

definition streakStart :: "day set \<Rightarrow> day \<Rightarrow> day" where
  "streakStart D today = (if today \<in> D then today else today - 1)"

text \<open>Four entries, two of them on the same day.\<close>

definition dupLogs :: "log_entry list" where
  "dupLogs =
     [\<lparr>row_id = ''r1'', user_id = ''u'', log_date = 19734, pages_read = 5, updated_at = 0\<rparr>,
      \<lparr>row_id = ''r2'', user_id = ''u'', log_date = 19735, pages_read = 5, updated_at = 0\<rparr>,
      \<lparr>row_id = ''r3'', user_id = ''u'', log_date = 19735, pages_read = 5, updated_at = 0\<rparr>,
      \<lparr>row_id = ''r4'', user_id = ''u'', log_date = 19736, pages_read = 5, updated_at = 0\<rparr>]"


section \<open>The backend\<close>

text \<open>
  The hosted backend is outside the repository. Its state is the table of reading logs and the
  table of profiles, both in storage order, and whether it can be reached. A request to an
  unreachable backend fails; the relational client reports a failure as an error code beside
  the data, the document-store client throws it.
\<close>

record profile =
  profile_id :: string
  profile_user_id :: string
  username :: string
  avatar_url :: "string option"

record backend =
  reading_logs :: "log_entry list"
  profiles :: "profile list"
  online :: bool

datatype 'a response = Data 'a | Failure string

text \<open>What a function of the repository throws: \<open>new Error(message)\<close>, or the backend's error.\<close>

datatype error = Error string | BackendError string

text \<open>
  Reading rows: the rows that satisfy the filters of the query, in storage order. (The
  document store cuts a list without a limit at its default page size; the two queries
  modelled without a limit only look at the first document.)
\<close>

definition select_logs :: "backend \<Rightarrow> (log_entry \<Rightarrow> bool) \<Rightarrow> log_entry list response" where
  "select_logs b P = (if online b then Data (filter P (reading_logs b)) else Failure ''network'')"

definition select_profiles :: "backend \<Rightarrow> (profile \<Rightarrow> bool) \<Rightarrow> profile list response" where
  "select_profiles b P = (if online b then Data (filter P (profiles b)) else Failure ''network'')"

text \<open>\<open>.order('log_date', { ascending: false })\<close> and \<open>orderDesc('log_date')\<close>.\<close>

definition orderDesc_log_date :: "log_entry list \<Rightarrow> log_entry list" where
  "orderDesc_log_date rows = sort_key (\<lambda>r. - log_date r) rows"

text \<open>\<open>.maybeSingle()\<close> and \<open>.single()\<close> of the relational client.\<close>

definition maybeSingle :: "'a list response \<Rightarrow> 'a option response" where
  "maybeSingle r =
     (case r of
        Failure e \<Rightarrow> Failure e
      | Data [] \<Rightarrow> Data None
      | Data [x] \<Rightarrow> Data (Some x)
      | Data _ \<Rightarrow> Failure ''PGRST116'')"

definition single :: "'a list response \<Rightarrow> 'a response" where
  "single r =
     (case r of
        Failure e \<Rightarrow> Failure e
      | Data [x] \<Rightarrow> Data x
      | Data _ \<Rightarrow> Failure ''PGRST116'')"

text \<open>
  The column \<open>pages_read INTEGER NOT NULL CHECK (pages_read > 0)\<close> of the relational schema:
  the error code a value is refused with, if any.
\<close>

definition pages_read_column :: "real \<Rightarrow> string option" where
  "pages_read_column x =
     (if real_of_int \<lfloor>x\<rfloor> \<noteq> x then Some ''22P02''
      else if x \<le> 0 then Some ''23514''
      else None)"

text \<open>
  \<open>.insert(row).select().single()\<close> on the relational table, with its constraint
  \<open>UNIQUE(user_id, log_date)\<close>, violated with code 23505.
\<close>

definition insert_log :: "backend \<Rightarrow> log_entry \<Rightarrow> log_entry response \<times> backend" where
  "insert_log b row =
     (if \<not> online b then (Failure ''network'', b)
      else case pages_read_column (pages_read row) of
        Some code \<Rightarrow> (Failure code, b)
      | None \<Rightarrow>
          if \<exists>r \<in> set (reading_logs b). user_id r = user_id row \<and> log_date r = log_date row
          then (Failure ''23505'', b)
          else (Data row, b\<lparr>reading_logs := reading_logs b @ [row]\<rparr>))"

text \<open>
  \<open>.update(changes).eq('id', logId).select().single()\<close>: the rows with that id take the
  changes, and the request answers with the one row it changed.
\<close>

definition update_log :: "backend \<Rightarrow> (log_entry \<Rightarrow> log_entry) \<Rightarrow> string
    \<Rightarrow> log_entry response \<times> backend" where
  "update_log b changes logId =
     (if \<not> online b then (Failure ''network'', b)
      else
        (let changed = map changes (filter (\<lambda>r. row_id r = logId) (reading_logs b)) in
         case List.map_filter (\<lambda>r. pages_read_column (pages_read r)) changed of
           code # _ \<Rightarrow> (Failure code, b)
         | [] \<Rightarrow>
             (case single (Data changed) of
                Failure e \<Rightarrow> (Failure e, b)
              | Data row \<Rightarrow>
                  (Data row,
                   b\<lparr>reading_logs :=
                       map (\<lambda>r. if row_id r = logId then changes r else r) (reading_logs b)\<rparr>))))"

text \<open>
  \<open>databases.createDocument\<close> and \<open>databases.updateDocument\<close> of the document store. A
  document id is unique; there is no constraint on \<open>(user_id, log_date)\<close>. An update also sets
  the document's modification time.
\<close>

definition createDocument :: "backend \<Rightarrow> log_entry \<Rightarrow> log_entry response \<times> backend" where
  "createDocument b doc =
     (if \<not> online b then (Failure ''network'', b)
      else if \<exists>r \<in> set (reading_logs b). row_id r = row_id doc
      then (Failure ''document_already_exists'', b)
      else (Data doc, b\<lparr>reading_logs := reading_logs b @ [doc]\<rparr>))"

definition updateDocument :: "backend \<Rightarrow> instant \<Rightarrow> string \<Rightarrow> (log_entry \<Rightarrow> log_entry)
    \<Rightarrow> log_entry response \<times> backend" where
  "updateDocument b now docId changes =
     (if \<not> online b then (Failure ''network'', b)
      else case List.find (\<lambda>r. row_id r = docId) (reading_logs b) of
        None \<Rightarrow> (Failure ''document_not_found'', b)
      | Some doc \<Rightarrow>
          (Data ((changes doc)\<lparr>updated_at := now\<rparr>),
           b\<lparr>reading_logs :=
               map (\<lambda>r. if row_id r = docId then (changes r)\<lparr>updated_at := now\<rparr> else r)
                 (reading_logs b)\<rparr>))"

definition getDocument_profile :: "backend \<Rightarrow> string \<Rightarrow> profile response" where
  "getDocument_profile b docId =
     (if \<not> online b then Failure ''network''
      else case List.find (\<lambda>p. profile_id p = docId) (profiles b) of
        None \<Rightarrow> Failure ''document_not_found''
      | Some p \<Rightarrow> Data p)"

text \<open>
  \<open>parseInt\<close> of a number: its integer part. (For the magnitudes that print without an
  exponent, which the page bounds guarantee where it is called.)
\<close>

definition parseInt :: "real \<Rightarrow> real" where
  "parseInt x = (if 0 \<le> x then real_of_int \<lfloor>x\<rfloor> else real_of_int \<lceil>x\<rceil>)"

section \<open>Reading log operations\<close>

text \<open>
  The repository holds each operation twice: for the relational backend
  (\<open>js/reading-log.js\<close>) and for the document store. Where the two differ, both are modelled,
  with the suffixes \<open>_supabase\<close> and \<open>_appwrite\<close>. The relational operations are modelled
  from the point where \<open>getSupabase()\<close> has handed over the client.

  Every operation that writes returns the backend's new state beside its result. Between the
  existence check of \<open>addReadingLog\<close> and its insert, other clients of the backend may write:
  \<open>others\<close> is what they do to the state in that interval, the identity when nobody does.
  The id of a new row, \<open>newId\<close>, is the one the backend assigns or \<open>ID.unique()\<close> draws, and
  the times the backend stamps are the current time.
\<close>

definition getLogByDate_supabase :: "backend \<Rightarrow> string \<Rightarrow> day \<Rightarrow> log_entry option" where
  "getLogByDate_supabase b userId logDate =
     (case maybeSingle (select_logs b (\<lambda>r. user_id r = userId \<and> log_date r = logDate)) of
        Failure e \<Rightarrow> None
      | Data d \<Rightarrow> d)"

definition getLogByDate_appwrite :: "backend \<Rightarrow> string \<Rightarrow> day \<Rightarrow> log_entry option" where
  "getLogByDate_appwrite b userId logDate =
     (case select_logs b (\<lambda>r. user_id r = userId \<and> log_date r = logDate) of
        Failure e \<Rightarrow> None
      | Data [] \<Rightarrow> None
      | Data (document # _) \<Rightarrow> Some document)"

definition addReadingLog_supabase :: "int \<Rightarrow> instant \<Rightarrow> (backend \<Rightarrow> backend) \<Rightarrow> string
    \<Rightarrow> backend \<Rightarrow> string \<Rightarrow> day \<Rightarrow> real \<Rightarrow> (error + log_entry) \<times> backend" where
  "addReadingLog_supabase tz now others newId b userId logDate pagesRead =
     (if \<not> isDateInRange tz now logDate 3
      then (Inl (Error ''You can only log entries for today or the past 3 days''), b)
      else if pagesRead < 1 \<or> pagesRead > 1000
      then (Inl (Error ''Pages must be between 1 and 1000''), b)
      else case getLogByDate_supabase b userId logDate of
        Some existingLog \<Rightarrow>
          (Inl (Error ''You already have an entry for this date. Please edit it instead.''), b)
      | None \<Rightarrow>
          (case insert_log (others b)
                  \<lparr>row_id = newId, user_id = userId, log_date = logDate,
                   pages_read = pagesRead, updated_at = now\<rparr> of
             (Failure code, b') \<Rightarrow>
               if code = ''23505''
               then (Inl (Error ''You already have an entry for this date''), b')
               else (Inl (BackendError code), b')
           | (Data row, b') \<Rightarrow> (Inr row, b')))"

definition addReadingLog_appwrite :: "int \<Rightarrow> instant \<Rightarrow> (backend \<Rightarrow> backend) \<Rightarrow> string
    \<Rightarrow> backend \<Rightarrow> string \<Rightarrow> day \<Rightarrow> real \<Rightarrow> (error + log_entry) \<times> backend" where
  "addReadingLog_appwrite tz now others newId b userId logDate pagesRead =
     (if \<not> isDateInRange tz now logDate 3
      then (Inl (Error ''You can only log entries for today or the past 3 days''), b)
      else if pagesRead < 1 \<or> pagesRead > 1000
      then (Inl (Error ''Pages must be between 1 and 1000''), b)
      else case getLogByDate_appwrite b userId logDate of
        Some existingLog \<Rightarrow>
          (Inl (Error ''You already have an entry for this date. Please edit it instead.''), b)
      | None \<Rightarrow>
          (case createDocument (others b)
                  \<lparr>row_id = newId, user_id = userId, log_date = logDate,
                   pages_read = parseInt pagesRead, updated_at = now\<rparr> of
             (Failure code, b') \<Rightarrow> (Inl (BackendError code), b')
           | (Data response, b') \<Rightarrow> (Inr response, b')))"

text \<open>
  \<open>getUserLogs(userId, limit = 50)\<close>, the same query in both variants: the user's rows, latest
  log date first, at most \<open>limit\<close> of them; \<open>[]\<close> when the request fails. A call without a
  limit is \<open>None\<close>.
\<close>

definition getUserLogs :: "backend \<Rightarrow> string \<Rightarrow> nat option \<Rightarrow> log_entry list" where
  "getUserLogs b userId limit =
     (case select_logs b (\<lambda>r. user_id r = userId) of
        Failure e \<Rightarrow> []
      | Data rows \<Rightarrow> take (case limit of None \<Rightarrow> 50 | Some n \<Rightarrow> n) (orderDesc_log_date rows))"

definition updateReadingLog_supabase :: "instant \<Rightarrow> backend \<Rightarrow> string \<Rightarrow> real
    \<Rightarrow> (error + log_entry) \<times> backend" where
  "updateReadingLog_supabase now b logId pagesRead =
     (if pagesRead < 1 \<or> pagesRead > 1000
      then (Inl (Error ''Pages must be between 1 and 1000''), b)
      else case update_log b (\<lambda>r. r\<lparr>pages_read := pagesRead, updated_at := now\<rparr>) logId of
        (Failure e, b') \<Rightarrow> (Inl (BackendError e), b')
      | (Data row, b') \<Rightarrow> (Inr row, b'))"

definition updateReadingLog_appwrite :: "instant \<Rightarrow> backend \<Rightarrow> string \<Rightarrow> real
    \<Rightarrow> (error + log_entry) \<times> backend" where
  "updateReadingLog_appwrite now b logId pagesRead =
     (if pagesRead < 1 \<or> pagesRead > 1000
      then (Inl (Error ''Pages must be between 1 and 1000''), b)
      else case updateDocument b now logId (\<lambda>r. r\<lparr>pages_read := parseInt pagesRead\<rparr>) of
        (Failure e, b') \<Rightarrow> (Inl (BackendError e), b')
      | (Data response, b') \<Rightarrow> (Inr response, b'))"

text \<open>\<open>refreshLogs\<close> of the dashboard: the statistics it displays.\<close>

definition refreshLogs :: "int \<Rightarrow> instant \<Rightarrow> backend \<Rightarrow> string \<Rightarrow> stats" where
  "refreshLogs tz now b currentUser = calculateStats tz now (getUserLogs b currentUser None)"

section \<open>Leaderboard\<close>

text \<open>
  The object \<open>userTotals\<close> is a plain object keyed by user id. Its own properties are a list
  of entries with distinct \<open>userId\<close>, in the order the keys were added. The name and the avatar
  of an entry are absent until they are set.

  Reading \<open>userTotals[k]\<close> also finds what the object inherits from \<open>Object.prototype\<close>: for a
  key that names one of its members the value is that member, which is truthy, so that no
  entry is made for the key, and \<open>userTotals[k].totalPages += n\<close> writes to the member and
  leaves \<open>userTotals\<close> as it is.
\<close>

record user_total =
  userId :: string
  lb_username :: "string option"
  avatarUrl :: "string option"
  lb_totalPages :: real

record leaderboard_entry = user_total +
  rank :: nat

definition prototype_members :: "string list" where
  "prototype_members =
     [''constructor'', ''__defineGetter__'', ''__defineSetter__'', ''hasOwnProperty'',
      ''__lookupGetter__'', ''__lookupSetter__'', ''isPrototypeOf'', ''propertyIsEnumerable'',
      ''toString'', ''valueOf'', ''__proto__'', ''toLocaleString'']"

text \<open>\<open>userTotals[k]\<close> is truthy; \<open>userTotals[k] = v\<close> for a new key; \<open>userTotals[k].totalPages += n\<close>.\<close>

definition has_key :: "user_total list \<Rightarrow> string \<Rightarrow> bool" where
  "has_key userTotals k = ((\<exists>e \<in> set userTotals. userId e = k) \<or> k \<in> set prototype_members)"

definition add_key :: "user_total list \<Rightarrow> user_total \<Rightarrow> user_total list" where
  "add_key userTotals v = userTotals @ [v]"

definition add_pages :: "user_total list \<Rightarrow> string \<Rightarrow> real \<Rightarrow> user_total list" where
  "add_pages userTotals k n =
     map (\<lambda>e. if userId e = k then e\<lparr>lb_totalPages := lb_totalPages e + n\<rparr> else e) userTotals"

text \<open>
  \<open>Object.values(userTotals)\<close>: the own properties, those whose key is an array index (a decimal
  numeral without leading zero, below \<open>2\<^sup>3\<^sup>2 - 1\<close>) first, in ascending order of the index, then
  the others in the order they were added.
\<close>

definition digit_of :: "char \<Rightarrow> int option" where
  "digit_of c = map_of (zip ''0123456789'' [0, 1, 2, 3, 4, 5, 6, 7, 8, 9]) c"

definition is_digit :: "char \<Rightarrow> bool" where
  "is_digit c = (digit_of c \<noteq> None)"

definition index_value :: "string \<Rightarrow> int" where
  "index_value s = foldl (\<lambda>n c. 10 * n + (case digit_of c of Some d \<Rightarrow> d | None \<Rightarrow> 0)) 0 s"

definition is_array_index :: "string \<Rightarrow> bool" where
  "is_array_index s =
     (case s of
        [] \<Rightarrow> False
      | c # cs \<Rightarrow> list_all is_digit s \<and> (c \<noteq> CHR ''0'' \<or> cs = []) \<and> length s \<le> 10 \<and>
                 index_value s < 4294967295)"

definition Object_values :: "user_total list \<Rightarrow> user_total list" where
  "Object_values userTotals =
     sort_key (\<lambda>e. index_value (userId e)) (filter (\<lambda>e. is_array_index (userId e)) userTotals)
     @ filter (\<lambda>e. \<not> is_array_index (userId e)) userTotals"

text \<open>
  \<open>.sort((a, b) => b.totalPages - a.totalPages).slice(0, limit)\<close>, the sort being stable, and
  \<open>.map((entry, index) => ({ ...entry, rank: index + 1 }))\<close>.
\<close>

definition sortSlice :: "nat \<Rightarrow> user_total list \<Rightarrow> user_total list" where
  "sortSlice limit userTotals = take limit (sort_key (\<lambda>e. - lb_totalPages e) userTotals)"

definition withRanks :: "user_total list \<Rightarrow> leaderboard_entry list" where
  "withRanks leaderboard =
     map (\<lambda>(index, entry). user_total.extend entry (leaderboard_entry.fields (index + 1)))
       (enumerate 0 leaderboard)"

text \<open>
  Neither leaderboard query asks for an order: the backend lists the matching rows in an
  order of its own. \<open>listing\<close> gives every row its place in that order; rows of the same place
  keep their storage order.
\<close>

definition list_logs :: "backend \<Rightarrow> (log_entry \<Rightarrow> int) \<Rightarrow> (log_entry \<Rightarrow> bool)
    \<Rightarrow> log_entry list response" where
  "list_logs b listing P =
     (if online b then Data (sort_key listing (filter P (reading_logs b)))
      else Failure ''network'')"

text \<open>
  The relational query: the rows from the start of the month on, each with the profile of its
  owner embedded; \<open>profiles!inner\<close> leaves out a row whose owner has no profile.
\<close>

record joined_row =
  j_user_id :: string
  j_pages_read :: real
  j_profiles :: profile

definition select_logs_join_profiles :: "backend \<Rightarrow> (log_entry \<Rightarrow> int) \<Rightarrow> (log_entry \<Rightarrow> bool)
    \<Rightarrow> joined_row list response" where
  "select_logs_join_profiles b listing P =
     (case list_logs b listing P of
        Failure e \<Rightarrow> Failure e
      | Data logs \<Rightarrow>
          Data (concat (map (\<lambda>r.
             case List.find (\<lambda>p. profile_id p = user_id r) (profiles b) of
               None \<Rightarrow> []
             | Some p \<Rightarrow> [\<lparr>j_user_id = user_id r, j_pages_read = pages_read r, j_profiles = p\<rparr>])
           logs)))"

definition aggregate_supabase :: "user_total list \<Rightarrow> joined_row \<Rightarrow> user_total list" where
  "aggregate_supabase userTotals entry =
     (let uid = j_user_id entry;
          userTotals1 =
            (if \<not> has_key userTotals uid
             then add_key userTotals
                    \<lparr>userId = uid, lb_username = Some (username (j_profiles entry)),
                     avatarUrl = avatar_url (j_profiles entry), lb_totalPages = 0\<rparr>
             else userTotals)
      in add_pages userTotals1 uid (j_pages_read entry))"

definition getLeaderboard_supabase :: "int \<Rightarrow> instant \<Rightarrow> (log_entry \<Rightarrow> int) \<Rightarrow> backend \<Rightarrow> nat
    \<Rightarrow> leaderboard_entry list" where
  "getLeaderboard_supabase tz now listing b limit =
     (let startDate = formatDateForInput tz (getMonthStart tz now) in
      case select_logs_join_profiles b listing (\<lambda>r. log_date r \<ge> startDate) of
        Failure e \<Rightarrow> []
      | Data rows \<Rightarrow>
          if length rows = 0 then []
          else withRanks (sortSlice limit (Object_values (foldl aggregate_supabase [] rows))))"

text \<open>
  \<open>getProfile\<close> of the document store: the profile document whose id is the user id, or else
  the first one whose \<open>user_id\<close> attribute is it; \<open>null\<close> when there is none or a request fails.
\<close>

definition getProfile_appwrite :: "backend \<Rightarrow> string \<Rightarrow> profile option" where
  "getProfile_appwrite b uid =
     (case getDocument_profile b uid of
        Data p \<Rightarrow> Some p
      | Failure e \<Rightarrow>
          (case select_profiles b (\<lambda>p. profile_user_id p = uid) of
             Failure e' \<Rightarrow> None
           | Data [] \<Rightarrow> None
           | Data (p # _) \<Rightarrow> Some p))"

definition aggregate_appwrite :: "user_total list \<Rightarrow> log_entry \<Rightarrow> user_total list" where
  "aggregate_appwrite userTotals entry =
     (let userTotals1 =
            (if \<not> has_key userTotals (user_id entry)
             then add_key userTotals
                    \<lparr>userId = user_id entry, lb_username = None, avatarUrl = None,
                     lb_totalPages = 0\<rparr>
             else userTotals)
      in add_pages userTotals1 (user_id entry) (pages_read entry))"

text \<open>
  The document-store query asks for at most 100 documents: the backend answers with the first
  100 of its listing.
\<close>

definition fetched_appwrite :: "int \<Rightarrow> instant \<Rightarrow> (log_entry \<Rightarrow> int) \<Rightarrow> backend
    \<Rightarrow> log_entry list response" where
  "fetched_appwrite tz now listing b =
     (let startDate = formatDateForInput tz (getMonthStart tz now) in
      case list_logs b listing (\<lambda>r. log_date r \<ge> startDate) of
        Failure e \<Rightarrow> Failure e
      | Data documents \<Rightarrow> Data (take 100 documents))"

definition resolveProfile :: "backend \<Rightarrow> user_total \<Rightarrow> user_total" where
  "resolveProfile b entry =
     (case getProfile_appwrite b (userId entry) of
        Some p \<Rightarrow> entry\<lparr>lb_username := Some (username p), avatarUrl := avatar_url p\<rparr>
      | None \<Rightarrow> entry\<lparr>lb_username := Some ''Unknown User''\<rparr>)"

definition topTotals_appwrite :: "log_entry list \<Rightarrow> nat \<Rightarrow> user_total list" where
  "topTotals_appwrite logs limit =
     sortSlice limit (Object_values (foldl aggregate_appwrite [] logs))"

definition getLeaderboard_appwrite :: "int \<Rightarrow> instant \<Rightarrow> (log_entry \<Rightarrow> int) \<Rightarrow> backend \<Rightarrow> nat
    \<Rightarrow> leaderboard_entry list" where
  "getLeaderboard_appwrite tz now listing b limit =
     (case fetched_appwrite tz now listing b of
        Failure e \<Rightarrow> []
      | Data logs \<Rightarrow> withRanks (map (resolveProfile b) (topTotals_appwrite logs limit)))"

section \<open>Example states\<close>

text \<open>
  A backend with four entries in January 2024 (day 19723 is 2024-01-01) and one on the last
  day of December 2023: this month \<open>A\<close> has 30 pages, \<open>B\<close> and \<open>C\<close> have 50 each.
\<close>

definition demo_backend :: backend where
  "demo_backend =
     \<lparr>reading_logs =
        [\<lparr>row_id = ''1'', user_id = ''A'', log_date = 19723, pages_read = 30, updated_at = 0\<rparr>,
         \<lparr>row_id = ''2'', user_id = ''B'', log_date = 19724, pages_read = 20, updated_at = 0\<rparr>,
         \<lparr>row_id = ''3'', user_id = ''C'', log_date = 19725, pages_read = 50, updated_at = 0\<rparr>,
         \<lparr>row_id = ''4'', user_id = ''B'', log_date = 19730, pages_read = 30, updated_at = 0\<rparr>,
         \<lparr>row_id = ''5'', user_id = ''A'', log_date = 19722, pages_read = 500, updated_at = 0\<rparr>],
      profiles =
        [\<lparr>profile_id = ''A'', profile_user_id = ''A'', username = ''alice'', avatar_url = None\<rparr>,
         \<lparr>profile_id = ''B'', profile_user_id = ''B'', username = ''bob'', avatar_url = None\<rparr>,
         \<lparr>profile_id = ''C'', profile_user_id = ''C'', username = ''carol'', avatar_url = None\<rparr>],
      online = True\<rparr>"


text \<open>Another client's insert of a row, landing between the existence check and the insert.\<close>

definition concurrent_insert :: "log_entry \<Rightarrow> backend \<Rightarrow> backend" where
  "concurrent_insert row b = b\<lparr>reading_logs := reading_logs b @ [row]\<rparr>"

definition demo_duplicate :: log_entry where
  "demo_duplicate =
     \<lparr>row_id = ''8'', user_id = ''B'', log_date = 19737, pages_read = 3, updated_at = 0\<rparr>"

text \<open>A user with 51 entries, on 51 consecutive days.\<close>

definition busy_backend :: backend where
  "busy_backend =
     \<lparr>reading_logs =
        map (\<lambda>d. \<lparr>row_id = ''r'' @ replicate d (CHR ''i''), user_id = ''A'',
                   log_date = 19680 + int d, pages_read = 10, updated_at = 0\<rparr>) [0..<51],
      profiles =
        [\<lparr>profile_id = ''A'', profile_user_id = ''A'', username = ''alice'', avatar_url = None\<rparr>],
      online = True\<rparr>"

text \<open>
  January 2024 with 101 entries, \<open>updated_at\<close> being the time each was added: first user \<open>Y\<close>
  logs 1000 pages, then an import adds 99 entries of one page each for the users \<open>A\<close>, \<open>B\<close>, \<open>C\<close>
  and \<open>D\<close> in turn, then user \<open>Z\<close> logs 1000 pages.
\<close>

definition crowded_backend :: backend where
  "crowded_backend =
     \<lparr>reading_logs =
        [\<lparr>row_id = ''Y'', user_id = ''Y'', log_date = 19723, pages_read = 1000, updated_at = 1\<rparr>]
        @ map (\<lambda>i. \<lparr>row_id = ''r'' @ replicate i (CHR ''i''),
                     user_id = [''A'', ''B'', ''C'', ''D''] ! (i mod 4),
                     log_date = 19723 + int (i div 4), pages_read = 1,
                     updated_at = 2\<rparr>) [0..<99]
        @ [\<lparr>row_id = ''Z'', user_id = ''Z'', log_date = 19747, pages_read = 1000,
            updated_at = 3\<rparr>],
      profiles = [],
      online = True\<rparr>"

text \<open>Two listings: the storage order, and the latest additions first.\<close>

definition storage_order :: "log_entry \<Rightarrow> int" where
  "storage_order r = 0"

definition recent_first :: "log_entry \<Rightarrow> int" where
  "recent_first r = - updated_at r"

section \<open>The leaderboard as the specification words it\<close>

text \<open>The sum of the pages of a user over rows \<open>(user, pages)\<close>.\<close>

definition userTotal :: "(string \<times> real) list \<Rightarrow> string \<Rightarrow> real" where
  "userTotal rows u = sum_list (map snd (filter (\<lambda>row. fst row = u) rows))"

text \<open>
  \<open>board\<close> ranks the top \<open>N\<close> users of \<open>rows\<close>: its users are distinct owners of rows, each with
  the sum of the owner's pages, in descending order of that sum; no owner left out has more
  pages than a listed one; there are \<open>N\<close> entries, or as many as there are owners if these are
  fewer; and the ranks are 1, 2, 3, ... in list order.
\<close>

definition ranking_of :: "(string \<times> real) list \<Rightarrow> nat \<Rightarrow> leaderboard_entry list \<Rightarrow> bool" where
  "ranking_of rows N board \<longleftrightarrow>
     distinct (map userId board) \<and>
     set (map userId board) \<subseteq> fst ` set rows \<and>
     map lb_totalPages board = map (userTotal rows) (map userId board) \<and>
     sorted (rev (map lb_totalPages board)) \<and>
     (\<forall>u \<in> fst ` set rows - set (map userId board).
        \<forall>t \<in> set (map lb_totalPages board). userTotal rows u \<le> t) \<and>
     length board = min N (length (remdups (map fst rows))) \<and>
     map rank board = [1..<length board + 1]"

text \<open>
  The rows of the month: every entry dated on or after the first day of the current month.
  The relational variant aggregates those whose owner has a profile. The document store
  aggregates the first 100 of the backend's listing of them. None when the request fails.
\<close>

definition monthRows_all :: "int \<Rightarrow> instant \<Rightarrow> backend \<Rightarrow> (string \<times> real) list" where
  "monthRows_all tz now b =
     (if online b
      then map (\<lambda>r. (user_id r, pages_read r))
             (filter (\<lambda>r. formatDateForInput tz (getMonthStart tz now) \<le> log_date r)
                (reading_logs b))
      else [])"

definition monthRows_supabase :: "int \<Rightarrow> instant \<Rightarrow> backend \<Rightarrow> (string \<times> real) list" where
  "monthRows_supabase tz now b =
     (if online b
      then map (\<lambda>r. (user_id r, pages_read r))
             (filter (\<lambda>r. formatDateForInput tz (getMonthStart tz now) \<le> log_date r \<and>
                          (\<exists>p \<in> set (profiles b). profile_id p = user_id r))
                (reading_logs b))
      else [])"

definition monthRows_appwrite :: "int \<Rightarrow> instant \<Rightarrow> (log_entry \<Rightarrow> int) \<Rightarrow> backend
    \<Rightarrow> (string \<times> real) list" where
  "monthRows_appwrite tz now listing b =
     (if online b
      then map (\<lambda>r. (user_id r, pages_read r))
             (take 100 (sort_key listing
                (filter (\<lambda>r. formatDateForInput tz (getMonthStart tz now) \<le> log_date r)
                   (reading_logs b))))
      else [])"

text \<open>The invariant of the aggregation loops.\<close>

definition totals_inv :: "(string \<times> real) list \<Rightarrow> user_total list \<Rightarrow> bool" where
  "totals_inv rows userTotals \<longleftrightarrow>
     distinct (map userId userTotals) \<and>
     set (map userId userTotals) = fst ` set rows \<and>
     map lb_totalPages userTotals = map (userTotal rows) (map userId userTotals)"

section \<open>Properties of the date utilities\<close>

lemma localDay_setDatePlus: "localDay tz (setDatePlus t n) = localDay tz t + n"
proof -
  have "(t + n * MS_PER_DAY + tz * 60000) = (t + tz * 60000) + n * MS_PER_DAY"
    by simp
  then show ?thesis
    unfolding localDay_def setDatePlus_def
    by (simp add: MS_PER_DAY_def)
qed

lemma MS_PER_DAY_pos: "0 < MS_PER_DAY"
  by (simp add: MS_PER_DAY_def)

lemma localDay_setHours0: "localDay tz (setHours0 tz t) = localDay tz t"
  by (simp add: localDay_def setHours0_def MS_PER_DAY_def)

lemma localDay_parseDate: "localDay tz (parseDate d) = d + (tz * 60000) div MS_PER_DAY"
  by (simp add: localDay_def parseDate_def MS_PER_DAY_def)

lemma setHours0_le_iff: "setHours0 tz s \<le> setHours0 tz t \<longleftrightarrow> localDay tz s \<le> localDay tz t"
  by (simp add: setHours0_def MS_PER_DAY_def)

lemma setHours0_diff:
  "setHours0 tz s - setHours0 tz t = (localDay tz s - localDay tz t) * MS_PER_DAY"
  by (simp add: setHours0_def algebra_simps)

lemma setDatePlus_setHours0_le_iff:
  "setDatePlus (setHours0 tz s) n \<le> setHours0 tz t \<longleftrightarrow> localDay tz s + n \<le> localDay tz t"
proof -
  have "setDatePlus (setHours0 tz s) n \<le> setHours0 tz t \<longleftrightarrow>
        (localDay tz s + n) * MS_PER_DAY \<le> localDay tz t * MS_PER_DAY"
    by (simp add: setHours0_def setDatePlus_def algebra_simps)
  also have "\<dots> \<longleftrightarrow> localDay tz s + n \<le> localDay tz t"
    using MS_PER_DAY_pos by (simp add: mult_le_cancel_right)
  finally show ?thesis .
qed

lemma isDateInRange_iff:
  "isDateInRange tz now d n \<longleftrightarrow>
     getToday tz now - n \<le> d + (tz * 60000) div MS_PER_DAY \<and>
     d + (tz * 60000) div MS_PER_DAY \<le> getToday tz now"
  by (simp add: isDateInRange_def Let_def setDatePlus_setHours0_le_iff setHours0_le_iff
      localDay_parseDate getToday_def formatDateForInput_def)

text \<open>
  At or east of UTC the parsed day and the local day agree, and the window is the one the
  date picker offers.
\<close>

lemma isDateInRange_east_of_UTC:
  assumes "0 \<le> tz" and "tz < 1440"
  shows "isDateInRange tz now d n \<longleftrightarrow> getToday tz now - n \<le> d \<and> d \<le> getToday tz now"
proof -
  have "(tz * 60000) div MS_PER_DAY = 0"
    using assms by (simp add: MS_PER_DAY_def)
  then show ?thesis by (simp add: isDateInRange_iff)
qed

text \<open>
  West of UTC midnight UTC of a day falls on the evening before, local time: the window moves
  one day into the future.
\<close>

lemma isDateInRange_west_of_UTC:
  assumes "- 1440 \<le> tz" and "tz < 0"
  shows "isDateInRange tz now d n \<longleftrightarrow> getToday tz now - n < d \<and> d \<le> getToday tz now + 1"
proof -
  have "(tz * 60000) div MS_PER_DAY = - 1"
  proof -
    have "tz * 60000 = - 86400000 + (tz * 60000 + 86400000)" by simp
    moreover have "0 \<le> tz * 60000 + 86400000" "tz * 60000 + 86400000 < 86400000"
      using assms by simp_all
    ultimately have "(tz * 60000) div 86400000 = - 1 + (tz * 60000 + 86400000) div 86400000"
      by (metis (no_types) div_mult_self1 [of 86400000 "tz * 60000 + 86400000" "- 1"]
          add.commute mult_minus1 zero_neq_numeral)
    then show ?thesis
      using \<open>0 \<le> tz * 60000 + 86400000\<close> \<open>tz * 60000 + 86400000 < 86400000\<close>
      by (simp add: MS_PER_DAY_def)
  qed
  then show ?thesis by (auto simp add: isDateInRange_iff)
qed

text \<open>
  Claim C4 says that \<open>isDateInRange(d, 3)\<close> accepts exactly the dates from three days before
  today up to today. In a browser at UTC-05:00, at noon of 2024-01-13 (day 19735), the function
  rejects 2024-01-10, three days back, and accepts 2024-01-14, tomorrow.
\<close>

theorem isDateInRange_UTC_minus_5:
  "getToday (- 300) 1705165200000 = 19735 \<and>
   isDateInRange (- 300) 1705165200000 (19735 - 3) 3 = False \<and>
   isDateInRange (- 300) 1705165200000 (19735 + 1) 3 = True"
  by (simp add: isDateInRange_iff getToday_def formatDateForInput_def localDay_def MS_PER_DAY_def)

section \<open>Properties of the statistics\<close>

lemma foldl_pages_read:
  "foldl (\<lambda>acc entry. acc + pages_read entry) a logs = a + sum_list (map pages_read logs)"
  by (induction logs arbitrary: a) simp_all

lemma Math_round_iff: "Math_round x = a \<longleftrightarrow> real_of_int a - 1 / 2 \<le> x \<and> x < real_of_int a + 1 / 2"
  unfolding Math_round_def floor_eq_iff by auto

text \<open>
  Claim C1: for the empty collection \<open>calculateStats\<close> returns \<open>avgPages = 0\<close>; for a
  non-empty one \<open>totalPages\<close> is the sum of \<open>pages_read\<close>, \<open>daysLogged\<close> the number of
  entries, and \<open>avgPages\<close> is their quotient rounded half up: the one integer \<open>a\<close> with
  \<open>a - 1/2 \<le> totalPages / daysLogged < a + 1/2\<close>.
\<close>

theorem calculateStats_avgPages:
  "(logs = [] \<longrightarrow> avgPages (calculateStats tz now logs) = 0) \<and>
   (logs \<noteq> [] \<longrightarrow>
      totalPages (calculateStats tz now logs) = sum_list (map pages_read logs) \<and>
      daysLogged (calculateStats tz now logs) = length logs \<and>
      (\<forall>a. avgPages (calculateStats tz now logs) = a \<longleftrightarrow>
           real_of_int a - 1 / 2 \<le> sum_list (map pages_read logs) / real (length logs) \<and>
           sum_list (map pages_read logs) / real (length logs) < real_of_int a + 1 / 2))"
  by (simp add: calculateStats_def Let_def foldl_pages_read Math_round_iff)

text \<open>Two entries of 2 and 3 pages average 2.5, rounded up to 3.\<close>

theorem calculateStats_avgPages_witness:
  "avgPages (calculateStats 330 1705300000000
     [\<lparr>row_id = ''r1'', user_id = ''u'', log_date = 19737, pages_read = 2, updated_at = 0\<rparr>,
      \<lparr>row_id = ''r2'', user_id = ''u'', log_date = 19736, pages_read = 3, updated_at = 0\<rparr>]) = 3
   \<and> avgPages (calculateStats 330 1705300000000 []) = 0"
  using calculateStats_avgPages [of
     "[\<lparr>row_id = ''r1'', user_id = ''u'', log_date = 19737, pages_read = 2, updated_at = 0\<rparr>,
      \<lparr>row_id = ''r2'', user_id = ''u'', log_date = 19736, pages_read = 3, updated_at = 0\<rparr>]"
     330 1705300000000]
    calculateStats_avgPages [of "[]" 330 1705300000000]
  by simp

subsection \<open>The current streak\<close>

lemma streakLoop_run:
  "\<exists>n. streakLoop tz ds t c = c + n \<and>
       (\<forall>i<n. localDay tz t - int i \<in> set ds) \<and> localDay tz t - int n \<notin> set ds"
proof (induction tz ds t c rule: streakLoop.induct)
  case (1 tz ds t c)
  show ?case
  proof (cases "formatDateForInput tz t \<in> set ds")
    case True
    from "1.IH" [OF True] obtain n where
      n: "streakLoop tz ds (setDatePlus t (- 1)) (c + 1) = c + 1 + n"
         "\<forall>i<n. localDay tz t - 1 - int i \<in> set ds"
         "localDay tz t - 1 - int n \<notin> set ds"
      by (auto simp: localDay_setDatePlus)
    have "\<forall>i<Suc n. localDay tz t - int i \<in> set ds"
    proof (intro allI impI)
      fix i assume "i < Suc n"
      show "localDay tz t - int i \<in> set ds"
      proof (cases i)
        case 0
        with True show ?thesis by (simp add: formatDateForInput_def)
      next
        case (Suc j)
        with \<open>i < Suc n\<close> n(2) have "localDay tz t - 1 - int j \<in> set ds" by simp
        with Suc show ?thesis by (simp add: algebra_simps)
      qed
    qed
    moreover have "localDay tz t - int (Suc n) \<notin> set ds"
      using n(3) by (simp add: algebra_simps)
    moreover have "streakLoop tz ds t c = c + Suc n"
      using True n(1) by (subst streakLoop.simps) simp
    ultimately show ?thesis by blast
  next
    case False
    then have "streakLoop tz ds t c = c + 0"
      by (subst streakLoop.simps) simp
    moreover have "localDay tz t - int 0 \<notin> set ds"
      using False by (simp add: formatDateForInput_def)
    ultimately show ?thesis by blast
  qed
qed

lemma run_unique:
  fixes s :: int
  assumes "\<forall>i<n. s - int i \<in> D" "s - int n \<notin> D" "\<forall>i<m. s - int i \<in> D" "s - int m \<notin> D"
  shows "n = m"
proof (rule ccontr)
  assume "n \<noteq> m"
  then consider "n < m" | "m < n" by linarith
  then show False
    using assms by cases auto
qed

lemma currentStreak_run:
  fixes logs :: "log_entry list" and tz :: int and now :: instant
  defines "n \<equiv> currentStreak (calculateStreaks tz now logs)"
    and "s \<equiv> streakStart (log_date ` set logs) (getToday tz now)"
  shows "(\<forall>i<n. s - int i \<in> log_date ` set logs) \<and> s - int n \<notin> log_date ` set logs"
proof (cases "logs = []")
  case True
  then show ?thesis by (simp add: n_def calculateStreaks_def)
next
  case False
  let ?ds = "map log_date (sort_key (\<lambda>l. parseDate (log_date l)) logs)"
  let ?t0 = "setHours0 tz now"
  let ?t = "if formatDateForInput tz ?t0 \<notin> set ?ds then setDatePlus ?t0 (- 1) else ?t0"
  have ds: "set ?ds = log_date ` set logs" by simp
  have n: "n = streakLoop tz ?ds ?t 0"
    using False by (simp add: n_def calculateStreaks_def Let_def split: prod.splits)
  have s: "localDay tz ?t = s"
    by (simp add: s_def streakStart_def getToday_def formatDateForInput_def
        localDay_setHours0 localDay_setDatePlus)
  from streakLoop_run [of tz ?ds ?t 0] obtain k where
    k: "streakLoop tz ?ds ?t 0 = 0 + k" "\<forall>i<k. localDay tz ?t - int i \<in> set ?ds"
       "localDay tz ?t - int k \<notin> set ?ds"
    by blast
  from k(1) n have "k = n" by simp
  with k(2,3) s show ?thesis
    by simp
qed

text \<open>
  Claim C2: the current streak \<open>n\<close> returned by \<open>calculateStreaks\<close> counts the consecutive
  logged days backward from \<open>start\<close>, which is today when today has an entry and yesterday
  otherwise: the \<open>n\<close> days \<open>start, start - 1, ...\<close> are all logged and day \<open>start - n\<close> is
  not. Logs on today and the two days before give 3, logs on yesterday and the day before
  give 2, a log two days ago alone gives 0.
\<close>

theorem calculateStreaks_currentStreak:
  "let D = log_date ` set logs;
       today = getToday tz now;
       start = (if today \<in> D then today else today - 1);
       n = currentStreak (calculateStreaks tz now logs)
   in (\<forall>i<n. start - int i \<in> D) \<and> start - int n \<notin> D \<and>
      (D = {today, today - 1, today - 2} \<longrightarrow> n = 3) \<and>
      (D = {today - 1, today - 2} \<longrightarrow> n = 2) \<and>
      (D = {today - 2} \<longrightarrow> n = 0)"
proof -
  define D where "D = log_date ` set logs"
  define today where "today = getToday tz now"
  define start where "start = (if today \<in> D then today else today - 1)"
  define n where "n = currentStreak (calculateStreaks tz now logs)"
  have run: "\<forall>i<n. start - int i \<in> D" "start - int n \<notin> D"
    using currentStreak_run [of tz now logs]
    unfolding streakStart_def D_def today_def start_def n_def by blast+
  have ex3: "n = 3" if "D = {today, today - 1, today - 2}"
  proof (rule run_unique [OF run])
    show "\<forall>i<3. start - int i \<in> D"
    proof (intro allI impI)
      fix i :: nat assume "i < 3"
      then consider "i = 0" | "i = 1" | "i = 2" by linarith
      then show "start - int i \<in> D"
        by cases (simp_all add: start_def that)
    qed
    show "start - int 3 \<notin> D" by (simp add: start_def that)
  qed
  have ex2: "n = 2" if "D = {today - 1, today - 2}"
  proof (rule run_unique [OF run])
    show "\<forall>i<2. start - int i \<in> D"
    proof (intro allI impI)
      fix i :: nat assume "i < 2"
      then consider "i = 0" | "i = 1" by linarith
      then show "start - int i \<in> D"
        by cases (simp_all add: start_def that)
    qed
    show "start - int 2 \<notin> D" by (simp add: start_def that)
  qed
  have ex0: "n = 0" if "D = {today - 2}"
  proof (rule run_unique [OF run])
    show "\<forall>i<0. start - int i \<in> D" by simp
    show "start - int 0 \<notin> D" by (simp add: start_def that)
  qed
  from run ex3 ex2 ex0 show ?thesis
    unfolding Let_def D_def [symmetric] today_def [symmetric] start_def [symmetric]
      n_def [symmetric]
    by blast
qed

text \<open>The three cases at 2024-01-15 (day 19737), in a browser at UTC+05:30.\<close>

theorem calculateStreaks_currentStreak_witness:
  "currentStreak (calculateStreaks 330 1705300000000
     [\<lparr>row_id = ''r1'', user_id = ''u'', log_date = 19737, pages_read = 12, updated_at = 0\<rparr>,
      \<lparr>row_id = ''r2'', user_id = ''u'', log_date = 19736, pages_read = 30, updated_at = 0\<rparr>,
      \<lparr>row_id = ''r3'', user_id = ''u'', log_date = 19735, pages_read = 7, updated_at = 0\<rparr>]) = 3 \<and>
   currentStreak (calculateStreaks 330 1705300000000
     [\<lparr>row_id = ''r2'', user_id = ''u'', log_date = 19736, pages_read = 30, updated_at = 0\<rparr>,
      \<lparr>row_id = ''r3'', user_id = ''u'', log_date = 19735, pages_read = 7, updated_at = 0\<rparr>]) = 2 \<and>
   currentStreak (calculateStreaks 330 1705300000000
     [\<lparr>row_id = ''r3'', user_id = ''u'', log_date = 19735, pages_read = 7, updated_at = 0\<rparr>]) = 0 \<and>
   getToday 330 1705300000000 = 19737"
  using
    calculateStreaks_currentStreak [of
     "[\<lparr>row_id = ''r1'', user_id = ''u'', log_date = 19737, pages_read = 12, updated_at = 0\<rparr>,
      \<lparr>row_id = ''r2'', user_id = ''u'', log_date = 19736, pages_read = 30, updated_at = 0\<rparr>,
      \<lparr>row_id = ''r3'', user_id = ''u'', log_date = 19735, pages_read = 7, updated_at = 0\<rparr>]"
     330 1705300000000]
    calculateStreaks_currentStreak [of
     "[\<lparr>row_id = ''r2'', user_id = ''u'', log_date = 19736, pages_read = 30, updated_at = 0\<rparr>,
      \<lparr>row_id = ''r3'', user_id = ''u'', log_date = 19735, pages_read = 7, updated_at = 0\<rparr>]"
     330 1705300000000]
    calculateStreaks_currentStreak [of
     "[\<lparr>row_id = ''r3'', user_id = ''u'', log_date = 19735, pages_read = 7, updated_at = 0\<rparr>]"
     330 1705300000000]
  by (simp add: Let_def getToday_def formatDateForInput_def localDay_def MS_PER_DAY_def)

subsection \<open>The longest streak\<close>

lemma Math_round_of_int: "Math_round (real_of_int k) = k"
  unfolding Math_round_def by linarith

lemma dayDiff_days:
  "Math_round (real_of_int (setHours0 tz (parseDate d) - setHours0 tz (parseDate p))
               / real_of_int MS_PER_DAY) = d - p"
proof -
  have "real_of_int (setHours0 tz (parseDate d) - setHours0 tz (parseDate p))
          / real_of_int MS_PER_DAY = real_of_int (d - p)"
    using MS_PER_DAY_pos by (simp add: setHours0_diff localDay_parseDate)
  then show ?thesis by (simp only: Math_round_of_int)
qed

lemma longestStep_dayStep:
  "longestStep tz (longest, temp, map_option (\<lambda>p. setHours0 tz (parseDate p)) prev) entry =
     (case dayStep (longest, temp, prev) (log_date entry) of
        (l, t, q) \<Rightarrow> (l, t, map_option (\<lambda>p. setHours0 tz (parseDate p)) q))"
  by (cases prev) (simp_all add: longestStep_def dayStep_def Let_def dayDiff_days del: of_int_diff)

lemma foldl_longestStep:
  "foldl (longestStep tz) (longest, temp, map_option (\<lambda>p. setHours0 tz (parseDate p)) prev) logs =
     (case foldl dayStep (longest, temp, prev) (map log_date logs) of
        (l, t, q) \<Rightarrow> (l, t, map_option (\<lambda>p. setHours0 tz (parseDate p)) q))"
proof (induction logs arbitrary: longest temp prev)
  case Nil
  show ?case by simp
next
  case (Cons e logs)
  obtain l t q where st: "dayStep (longest, temp, prev) (log_date e) = (l, t, q)"
    by (cases "dayStep (longest, temp, prev) (log_date e)") auto
  show ?case
    by (simp add: longestStep_dayStep st Cons.IH)
qed

lemma foldl_dayStep_scanPairs:
  "(case foldl dayStep (longest, temp, Some p) ds of (l, t, q) \<Rightarrow> max l t) =
     scanPairs (p # ds) temp (max longest temp)"
proof (induction ds arbitrary: longest temp p)
  case Nil
  show ?case by simp
next
  case (Cons d ds)
  show ?case
  proof (cases "d - p = 1")
    case True
    have "max (max longest temp) (temp + 1) = max longest (temp + 1)" by simp
    with True Cons.IH [of longest "temp + 1" d] show ?thesis
      by (simp add: dayStep_def Let_def)
  next
    case False
    have "max (max longest temp) 1 = max (max longest temp) (1::nat)" by simp
    with False Cons.IH [of "max longest temp" 1 d] show ?thesis
      by (simp add: dayStep_def Let_def)
  qed
qed

lemma insort_key_parseDate:
  "insort_key (\<lambda>l. parseDate (log_date l)) x xs = insort_key log_date x xs"
  using MS_PER_DAY_pos by (induction xs) (simp_all add: parseDate_def mult_le_cancel_right)

lemma sort_key_parseDate:
  "sort_key (\<lambda>l. parseDate (log_date l)) logs = sort_key log_date logs"
  by (induction logs) (simp_all add: insort_key_parseDate)

lemma map_insort_key: "map f (insort_key f x xs) = insort (f x) (map f xs)"
  by (induction xs) simp_all

lemma map_sort_key: "map f (sort_key f xs) = sort (map f xs)"
  by (induction xs) (simp_all add: map_insort_key)

lemma longestStreak_scan:
  assumes "logs \<noteq> []"
  shows "longestStreak (calculateStreaks tz now logs) = scanPairs (sort (map log_date logs)) 1 1"
proof -
  let ?sorted = "sort_key (\<lambda>l. parseDate (log_date l)) logs"
  have m: "map log_date ?sorted = sort (map log_date logs)"
    by (simp add: sort_key_parseDate map_sort_key)
  from assms have "?sorted \<noteq> []"
    by (metis length_sort list.size(3) length_0_conv)
  then obtain e es where es: "?sorted = e # es" by (cases ?sorted) auto
  have first: "longestStep tz (0, 0, None) e = (0, 1, map_option (\<lambda>p. setHours0 tz (parseDate p)) (Some (log_date e)))"
    by (simp add: longestStep_def Let_def)
  have "foldl (longestStep tz) (0, 0, None) ?sorted =
        (case foldl dayStep (0, 1, Some (log_date e)) (map log_date es) of
           (l, t, q) \<Rightarrow> (l, t, map_option (\<lambda>p. setHours0 tz (parseDate p)) q))"
    unfolding es foldl_Cons first by (rule foldl_longestStep)
  moreover have "(case foldl dayStep (0, 1, Some (log_date e)) (map log_date es) of
           (l, t, q) \<Rightarrow> max l t) = scanPairs (log_date e # map log_date es) 1 1"
    using foldl_dayStep_scanPairs [of 0 1 "log_date e" "map log_date es"] by simp
  ultimately have "(case foldl (longestStep tz) (0, 0, None) ?sorted of (l, t, q) \<Rightarrow> max l t)
        = scanPairs (map log_date ?sorted) 1 1"
    by (simp add: es split: prod.splits)
  moreover have "longestStreak (calculateStreaks tz now logs) =
      (case foldl (longestStep tz) (0, 0, None) ?sorted of (l, t, q) \<Rightarrow> max l t)"
    using assms by (simp add: calculateStreaks_def Let_def split: prod.splits)
  ultimately show ?thesis
    using m by simp
qed

lemma spec_longestStreak_nonempty:
  assumes "dates \<noteq> []"
  shows "spec_longestStreak dates = scanPairs (sort (remdups dates)) 1 1"
proof -
  from assms have "set (sort (remdups dates)) \<noteq> {}" by simp
  then have "sort (remdups dates) \<noteq> []" by (simp del: set_sort set_remdups)
  then show ?thesis
    by (simp add: spec_longestStreak_def split: list.splits)
qed

text \<open>
  Where no two entries share a log date, the loop finds the greatest run of the distinct
  dates sorted ascending, a gap of exactly one day extending the run and any other gap
  resetting it to 1; a single entry yields 1.
\<close>

lemma longestStreak_distinct_dates:
  "(logs \<noteq> [] \<and> distinct (map log_date logs) \<longrightarrow>
      longestStreak (calculateStreaks tz now logs) = spec_longestStreak (map log_date logs)) \<and>
   longestStreak (calculateStreaks tz now [entry]) = 1"
proof -
  have "longestStreak (calculateStreaks tz now [entry]) = 1"
    using longestStreak_scan [of "[entry]" tz now] by simp
  moreover have "longestStreak (calculateStreaks tz now logs) = spec_longestStreak (map log_date logs)"
    if "logs \<noteq> []" "distinct (map log_date logs)"
    using that longestStreak_scan [of logs tz now]
    by (simp add: spec_longestStreak_nonempty distinct_remdups_id)
  ultimately show ?thesis by blast
qed

text \<open>Entries on days 1, 2, 3 and 7 of January 2024: the longest streak is 3.\<close>

lemma longestStreak_example:
  "longestStreak (calculateStreaks 330 1705300000000
     [\<lparr>row_id = ''r4'', user_id = ''u'', log_date = 19729, pages_read = 9, updated_at = 0\<rparr>,
      \<lparr>row_id = ''r3'', user_id = ''u'', log_date = 19725, pages_read = 7, updated_at = 0\<rparr>,
      \<lparr>row_id = ''r2'', user_id = ''u'', log_date = 19724, pages_read = 30, updated_at = 0\<rparr>,
      \<lparr>row_id = ''r1'', user_id = ''u'', log_date = 19723, pages_read = 12, updated_at = 0\<rparr>]) = 3"
  using longestStreak_distinct_dates [of
     "[\<lparr>row_id = ''r4'', user_id = ''u'', log_date = 19729, pages_read = 9, updated_at = 0\<rparr>,
      \<lparr>row_id = ''r3'', user_id = ''u'', log_date = 19725, pages_read = 7, updated_at = 0\<rparr>,
      \<lparr>row_id = ''r2'', user_id = ''u'', log_date = 19724, pages_read = 30, updated_at = 0\<rparr>,
      \<lparr>row_id = ''r1'', user_id = ''u'', log_date = 19723, pages_read = 12, updated_at = 0\<rparr>]"
     330 1705300000000]
  by (simp add: spec_longestStreak_def)

text \<open>
  Claim C3 says that the longest streak is the greatest run of the distinct log dates. The
  loop scans the sorted entries, not the distinct dates: for two entries of the same date it
  sees a gap of 0 and resets the run. The current streak does count a date once, through the
  \<open>Set\<close> of the dates. For the four entries on the days 19734, 19735, 19735 and 19736, seen
  on day 19737 (2024-01-15, UTC+05:30), the distinct dates form a run of 3 and the current
  streak is 3, and the longest streak returned is 2.
\<close>

theorem calculateStreaks_longestStreak_duplicates:
  "spec_longestStreak (map log_date dupLogs) = 3 \<and>
   currentStreak (calculateStreaks 330 1705300000000 dupLogs) = 3 \<and>
   longestStreak (calculateStreaks 330 1705300000000 dupLogs) = 2"
proof -
  have "spec_longestStreak (map log_date dupLogs) = 3"
    by code_simp
  moreover have "currentStreak (calculateStreaks 330 1705300000000 dupLogs) = 3"
    by (simp add: calculateStreaks_def dupLogs_def Let_def setHours0_def formatDateForInput_def
        localDay_def setDatePlus_def parseDate_def MS_PER_DAY_def streakLoop.simps
        split: prod.splits)
  moreover have "longestStreak (calculateStreaks 330 1705300000000 dupLogs) = 2"
    by code_simp
  ultimately show ?thesis by blast
qed

section \<open>Properties of the log operations\<close>

lemma insert_log_accepts:
  assumes "online b" and "pages_read_column (pages_read row) = None"
    and "\<forall>r \<in> set (reading_logs b). \<not> (user_id r = user_id row \<and> log_date r = log_date row)"
  shows "insert_log b row = (Data row, b\<lparr>reading_logs := reading_logs b @ [row]\<rparr>)"
  using assms by (auto simp add: insert_log_def)

lemma insert_log_duplicate:
  assumes "online b" and "pages_read_column (pages_read row) = None"
    and "\<exists>r \<in> set (reading_logs b). user_id r = user_id row \<and> log_date r = log_date row"
  shows "insert_log b row = (Failure ''23505'', b)"
  using assms by (simp add: insert_log_def)

lemma pages_read_column_of_int:
  "0 < k \<Longrightarrow> pages_read_column (real_of_int k) = None"
  by (simp add: pages_read_column_def)

lemma parseInt_of_int: "parseInt (real_of_int k) = real_of_int k"
  by (simp add: parseInt_def)

lemma getLogByDate_supabase_None:
  assumes "\<forall>r \<in> set (reading_logs b). \<not> (user_id r = u \<and> log_date r = d)"
  shows "getLogByDate_supabase b u d = None"
proof -
  from assms have "filter (\<lambda>r. user_id r = u \<and> log_date r = d) (reading_logs b) = []"
    by (auto simp add: filter_empty_conv)
  then show ?thesis
    by (simp add: getLogByDate_supabase_def select_logs_def maybeSingle_def)
qed

lemma getLogByDate_appwrite_None:
  assumes "\<forall>r \<in> set (reading_logs b). \<not> (user_id r = u \<and> log_date r = d)"
  shows "getLogByDate_appwrite b u d = None"
proof -
  from assms have "filter (\<lambda>r. user_id r = u \<and> log_date r = d) (reading_logs b) = []"
    by (auto simp add: filter_empty_conv)
  then show ?thesis
    by (simp add: getLogByDate_appwrite_def select_logs_def)
qed

lemma addReadingLog_supabase_guard:
  assumes "pagesRead < 1 \<or> pagesRead > 1000"
  shows "addReadingLog_supabase tz now others newId b uid logDate pagesRead =
    (Inl (Error (if isDateInRange tz now logDate 3 then ''Pages must be between 1 and 1000''
                 else ''You can only log entries for today or the past 3 days'')), b)"
  using assms by (simp add: addReadingLog_supabase_def)

lemma addReadingLog_appwrite_guard:
  assumes "pagesRead < 1 \<or> pagesRead > 1000"
  shows "addReadingLog_appwrite tz now others newId b uid logDate pagesRead =
    (Inl (Error (if isDateInRange tz now logDate 3 then ''Pages must be between 1 and 1000''
                 else ''You can only log entries for today or the past 3 days'')), b)"
  using assms by (simp add: addReadingLog_appwrite_def)

lemma addReadingLog_supabase_no_pages_error:
  assumes "1 \<le> pagesRead" "pagesRead \<le> 1000"
  shows "fst (addReadingLog_supabase tz now others newId b uid logDate pagesRead)
           \<noteq> Inl (Error ''Pages must be between 1 and 1000'')"
  using assms
  by (simp add: addReadingLog_supabase_def split: option.splits prod.splits response.splits)

lemma addReadingLog_appwrite_no_pages_error:
  assumes "1 \<le> pagesRead" "pagesRead \<le> 1000"
  shows "fst (addReadingLog_appwrite tz now others newId b uid logDate pagesRead)
           \<noteq> Inl (Error ''Pages must be between 1 and 1000'')"
  using assms
  by (simp add: addReadingLog_appwrite_def split: option.splits prod.splits response.splits)

lemma addReadingLog_supabase_accepts:
  assumes "isDateInRange tz now logDate 3" and "1 \<le> k" "k \<le> 1000" and "online b"
    and "\<forall>r \<in> set (reading_logs b). \<not> (user_id r = uid \<and> log_date r = logDate)"
  shows "addReadingLog_supabase tz now id newId b uid logDate (real_of_int k) =
     (Inr \<lparr>row_id = newId, user_id = uid, log_date = logDate,
           pages_read = real_of_int k, updated_at = now\<rparr>,
      b\<lparr>reading_logs := reading_logs b @
           [\<lparr>row_id = newId, user_id = uid, log_date = logDate,
             pages_read = real_of_int k, updated_at = now\<rparr>]\<rparr>)"
proof -
  let ?row = "\<lparr>row_id = newId, user_id = uid, log_date = logDate,
           pages_read = real_of_int k, updated_at = now\<rparr>"
  have "insert_log b ?row = (Data ?row, b\<lparr>reading_logs := reading_logs b @ [?row]\<rparr>)"
    using assms by (intro insert_log_accepts) (simp_all add: pages_read_column_of_int)
  then show ?thesis
    using assms by (simp add: addReadingLog_supabase_def getLogByDate_supabase_None)
qed

lemma addReadingLog_appwrite_accepts:
  assumes "isDateInRange tz now logDate 3" and "1 \<le> k" "k \<le> 1000" and "online b"
    and "\<forall>r \<in> set (reading_logs b). \<not> (user_id r = uid \<and> log_date r = logDate)"
    and "\<forall>r \<in> set (reading_logs b). row_id r \<noteq> newId"
  shows "addReadingLog_appwrite tz now id newId b uid logDate (real_of_int k) =
     (Inr \<lparr>row_id = newId, user_id = uid, log_date = logDate,
           pages_read = real_of_int k, updated_at = now\<rparr>,
      b\<lparr>reading_logs := reading_logs b @
           [\<lparr>row_id = newId, user_id = uid, log_date = logDate,
             pages_read = real_of_int k, updated_at = now\<rparr>]\<rparr>)"
  using assms
  by (auto simp add: addReadingLog_appwrite_def getLogByDate_appwrite_None createDocument_def
      parseInt_of_int)

text \<open>
  Claim C5, amended: for every input \<open>(userId, logDate, pagesRead)\<close>, \<open>addReadingLog\<close> rejects
  with a validation error, leaving the store as it was, whenever \<open>pagesRead < 1\<close> or
  \<open>pagesRead > 1000\<close>: the date error when the date is out of the window, the page error
  otherwise. A \<open>pagesRead\<close> within \<open>[1, 1000]\<close> is never refused by the page check, whether
  it is an integer or not; an integer one, with the date in the window, a reachable backend
  and no entry for that user and date, is stored as given. So 0 and 1001 are rejected, 1 and
  1000 accepted.
\<close>

theorem addReadingLog_pages_guard:
  "(pagesRead < 1 \<or> pagesRead > 1000 \<longrightarrow>
      addReadingLog_supabase tz now others newId b uid logDate pagesRead =
        (Inl (Error (if isDateInRange tz now logDate 3 then ''Pages must be between 1 and 1000''
                     else ''You can only log entries for today or the past 3 days'')), b) \<and>
      addReadingLog_appwrite tz now others newId b uid logDate pagesRead =
        (Inl (Error (if isDateInRange tz now logDate 3 then ''Pages must be between 1 and 1000''
                     else ''You can only log entries for today or the past 3 days'')), b)) \<and>
   (1 \<le> pagesRead \<and> pagesRead \<le> 1000 \<longrightarrow>
      fst (addReadingLog_supabase tz now others newId b uid logDate pagesRead)
        \<noteq> Inl (Error ''Pages must be between 1 and 1000'') \<and>
      fst (addReadingLog_appwrite tz now others newId b uid logDate pagesRead)
        \<noteq> Inl (Error ''Pages must be between 1 and 1000'')) \<and>
   (isDateInRange tz now logDate 3 \<and> 1 \<le> k \<and> k \<le> 1000 \<and> online b \<and>
    (\<forall>r \<in> set (reading_logs b). \<not> (user_id r = uid \<and> log_date r = logDate)) \<and>
    (\<forall>r \<in> set (reading_logs b). row_id r \<noteq> newId) \<longrightarrow>
      fst (addReadingLog_supabase tz now id newId b uid logDate (real_of_int k)) =
        Inr \<lparr>row_id = newId, user_id = uid, log_date = logDate,
             pages_read = real_of_int k, updated_at = now\<rparr> \<and>
      fst (addReadingLog_appwrite tz now id newId b uid logDate (real_of_int k)) =
        Inr \<lparr>row_id = newId, user_id = uid, log_date = logDate,
             pages_read = real_of_int k, updated_at = now\<rparr>)"
  using addReadingLog_supabase_guard [of pagesRead tz now others newId b uid logDate]
    addReadingLog_appwrite_guard [of pagesRead tz now others newId b uid logDate]
    addReadingLog_supabase_no_pages_error [of pagesRead tz now others newId b uid logDate]
    addReadingLog_appwrite_no_pages_error [of pagesRead tz now others newId b uid logDate]
    addReadingLog_supabase_accepts [of tz now logDate k b uid newId]
    addReadingLog_appwrite_accepts [of tz now logDate k b uid newId]
  by (simp del: One_nat_def)

text \<open>On 2024-01-15 user \<open>B\<close> logs today: 0 and 1001 pages are refused, 1000 and 1 stored.\<close>

theorem addReadingLog_pages_guard_witness:
  "fst (addReadingLog_supabase 330 1705300000000 id ''9'' demo_backend ''B'' 19737 0)
     = Inl (Error ''Pages must be between 1 and 1000'') \<and>
   fst (addReadingLog_appwrite 330 1705300000000 id ''9'' demo_backend ''B'' 19737 1001)
     = Inl (Error ''Pages must be between 1 and 1000'') \<and>
   fst (addReadingLog_supabase 330 1705300000000 id ''9'' demo_backend ''B'' 19737 1000)
     = Inr \<lparr>row_id = ''9'', user_id = ''B'', log_date = 19737, pages_read = 1000,
            updated_at = 1705300000000\<rparr> \<and>
   fst (addReadingLog_appwrite 330 1705300000000 id ''9'' demo_backend ''B'' 19737 1)
     = Inr \<lparr>row_id = ''9'', user_id = ''B'', log_date = 19737, pages_read = 1,
            updated_at = 1705300000000\<rparr>"
proof -
  have d: "isDateInRange 330 1705300000000 19737 3"
    by code_simp
  have b: "online demo_backend"
    "\<forall>r \<in> set (reading_logs demo_backend). \<not> (user_id r = ''B'' \<and> log_date r = 19737)"
    "\<forall>r \<in> set (reading_logs demo_backend). row_id r \<noteq> ''9''"
    by (simp_all add: demo_backend_def)
  show ?thesis
    using d b
      addReadingLog_pages_guard [where pagesRead = 0 and tz = 330 and now = 1705300000000
        and others = id and newId = "''9''" and b = demo_backend and uid = "''B''"
        and logDate = 19737 and k = 1000]
      addReadingLog_pages_guard [where pagesRead = 1001 and tz = 330 and now = 1705300000000
        and others = id and newId = "''9''" and b = demo_backend and uid = "''B''"
        and logDate = 19737 and k = 1]
    by simp
qed

text \<open>
  The guard compares only: 2.5 pages pass it. The document-store variant stores
  \<open>parseInt(2.5) = 2\<close> and returns the entry.
\<close>

theorem addReadingLog_pages_guard_counterexample:
  "fst (addReadingLog_appwrite 330 1705300000000 id ''9'' demo_backend ''B'' 19737 (5 / 2))
     = Inr \<lparr>row_id = ''9'', user_id = ''B'', log_date = 19737, pages_read = 2,
            updated_at = 1705300000000\<rparr>"
  by code_simp

text \<open>
  Claim C6, amended: when the existence check finds nothing and the insert is then refused by
  the uniqueness constraint (code 23505), the relational \<open>addReadingLog\<close> throws an error with
  the message \<open>You already have an entry for this date\<close>; when the existence check finds the
  entry, the message is \<open>You already have an entry for this date. Please edit it instead.\<close>
  The first message is the second without its last sentence.
\<close>

theorem addReadingLog_duplicate_message:
  "(isDateInRange tz now logDate 3 \<and> 1 \<le> pagesRead \<and> pagesRead \<le> 1000 \<and>
    getLogByDate_supabase b uid logDate = None \<and>
    fst (insert_log (others b)
          \<lparr>row_id = newId, user_id = uid, log_date = logDate,
           pages_read = pagesRead, updated_at = now\<rparr>) = Failure ''23505'' \<longrightarrow>
      fst (addReadingLog_supabase tz now others newId b uid logDate pagesRead)
        = Inl (Error ''You already have an entry for this date'')) \<and>
   (isDateInRange tz now logDate 3 \<and> 1 \<le> pagesRead \<and> pagesRead \<le> 1000 \<and>
    getLogByDate_supabase b uid logDate \<noteq> None \<longrightarrow>
      fst (addReadingLog_supabase tz now others newId b uid logDate pagesRead)
        = Inl (Error ''You already have an entry for this date. Please edit it instead.'')) \<and>
   ''You already have an entry for this date. Please edit it instead.''
     = ''You already have an entry for this date'' @ ''. Please edit it instead.''"
  by (auto simp add: addReadingLog_supabase_def split: prod.splits response.splits)

text \<open>
  User \<open>B\<close> logs 2024-01-15 while another session of \<open>B\<close> does the same: caught by the
  constraint when the other insert lands after the check, by the check when it lands before.
\<close>

theorem addReadingLog_duplicate_message_witness:
  "fst (addReadingLog_supabase 330 1705300000000 (concurrent_insert demo_duplicate) ''9''
          demo_backend ''B'' 19737 10)
     = Inl (Error ''You already have an entry for this date'') \<and>
   fst (addReadingLog_supabase 330 1705300000000 id ''9''
          (concurrent_insert demo_duplicate demo_backend) ''B'' 19737 10)
     = Inl (Error ''You already have an entry for this date. Please edit it instead.'')"
proof -
  have d: "isDateInRange 330 1705300000000 19737 3"
    by code_simp
  have miss: "getLogByDate_supabase demo_backend ''B'' 19737 = None"
    by code_simp
  have hit: "getLogByDate_supabase (concurrent_insert demo_duplicate demo_backend) ''B'' 19737
      \<noteq> None"
    by code_simp
  have dup: "fst (insert_log (concurrent_insert demo_duplicate demo_backend)
      \<lparr>row_id = ''9'', user_id = ''B'', log_date = 19737, pages_read = 10,
       updated_at = 1705300000000\<rparr>) = Failure ''23505''"
    by code_simp
  have r: "(1::real) \<le> 10" "(10::real) \<le> 1000"
    by simp_all
  show ?thesis
    using d miss hit dup r
      addReadingLog_duplicate_message [where tz = 330 and now = 1705300000000
        and others = "concurrent_insert demo_duplicate" and newId = "''9''"
        and b = demo_backend and uid = "''B''" and logDate = 19737 and pagesRead = 10]
      addReadingLog_duplicate_message [where tz = 330 and now = 1705300000000
        and others = id and newId = "''9''"
        and b = "concurrent_insert demo_duplicate demo_backend" and uid = "''B''"
        and logDate = 19737 and pagesRead = 10]
    by blast
qed

text \<open>The two layers answer the same duplicate with two different messages.\<close>

theorem addReadingLog_duplicate_message_counterexample:
  "fst (addReadingLog_supabase 330 1705300000000 (concurrent_insert demo_duplicate) ''9''
          demo_backend ''B'' 19737 10)
     = Inl (Error ''You already have an entry for this date'') \<and>
   fst (addReadingLog_supabase 330 1705300000000 id ''9''
          (concurrent_insert demo_duplicate demo_backend) ''B'' 19737 10)
     = Inl (Error ''You already have an entry for this date. Please edit it instead.'') \<and>
   ''You already have an entry for this date''
     \<noteq> ''You already have an entry for this date. Please edit it instead.''"
  by code_simp

lemma updateReadingLog_supabase_guard:
  "pagesRead < 1 \<or> pagesRead > 1000 \<Longrightarrow>
   updateReadingLog_supabase now b logId pagesRead =
     (Inl (Error ''Pages must be between 1 and 1000''), b)"
  by (simp add: updateReadingLog_supabase_def)

lemma updateReadingLog_appwrite_guard:
  "pagesRead < 1 \<or> pagesRead > 1000 \<Longrightarrow>
   updateReadingLog_appwrite now b logId pagesRead =
     (Inl (Error ''Pages must be between 1 and 1000''), b)"
  by (simp add: updateReadingLog_appwrite_def)

lemma update_log_Data:
  assumes "update_log b f logId = (Data row', b')"
  shows "(\<exists>r \<in> set (reading_logs b). row_id r = logId \<and> row' = f r) \<and>
         b' = b\<lparr>reading_logs := map (\<lambda>r. if row_id r = logId then f r else r) (reading_logs b)\<rparr>"
proof -
  let ?changed = "map f (filter (\<lambda>r. row_id r = logId) (reading_logs b))"
  from assms have on: "online b"
    by (auto simp add: update_log_def split: if_splits)
  from assms on have s: "single (Data ?changed) = Data row'"
    and b': "b' = b\<lparr>reading_logs := map (\<lambda>r. if row_id r = logId then f r else r) (reading_logs b)\<rparr>"
    by (auto simp add: update_log_def Let_def split: list.splits response.splits)
  from s have "?changed = [row']"
    by (auto simp add: single_def split: list.splits)
  then have "row' \<in> set ?changed" by simp
  then have "\<exists>r \<in> set (reading_logs b). row_id r = logId \<and> row' = f r" by auto
  with b' show ?thesis by simp
qed

lemma updateDocument_Data:
  assumes "updateDocument b now docId f = (Data row', b')"
  shows "(\<exists>r \<in> set (reading_logs b). row_id r = docId \<and> row' = (f r)\<lparr>updated_at := now\<rparr>) \<and>
         b' = b\<lparr>reading_logs :=
                 map (\<lambda>r. if row_id r = docId then (f r)\<lparr>updated_at := now\<rparr> else r) (reading_logs b)\<rparr>"
proof -
  from assms have on: "online b"
    by (auto simp add: updateDocument_def split: if_splits)
  from assms on obtain doc where
    doc: "List.find (\<lambda>r. row_id r = docId) (reading_logs b) = Some doc"
    and row': "row' = (f doc)\<lparr>updated_at := now\<rparr>"
    and b': "b' = b\<lparr>reading_logs :=
                 map (\<lambda>r. if row_id r = docId then (f r)\<lparr>updated_at := now\<rparr> else r) (reading_logs b)\<rparr>"
    by (auto simp add: updateDocument_def split: option.splits)
  from doc have "doc \<in> set (reading_logs b)" "row_id doc = docId"
    by (auto simp add: find_Some_iff)
  with row' b' show ?thesis by auto
qed

lemma find_filter_Cons: "filter P xs = x # ys \<Longrightarrow> List.find P xs = Some x"
  by (induction xs) (auto split: if_splits)

lemma update_log_accepts:
  assumes "online b" and "filter (\<lambda>r. row_id r = logId) (reading_logs b) = [r]"
    and "pages_read_column (pages_read (f r)) = None"
  shows "fst (update_log b f logId) = Data (f r)"
  using assms by (simp add: update_log_def Let_def List.map_filter_simps single_def)

lemma updateDocument_accepts:
  assumes "online b" and "filter (\<lambda>r. row_id r = logId) (reading_logs b) = [r]"
  shows "fst (updateDocument b now logId f) = Data ((f r)\<lparr>updated_at := now\<rparr>)"
proof -
  from assms(2) have "List.find (\<lambda>r. row_id r = logId) (reading_logs b) = Some r"
    by (rule find_filter_Cons)
  with assms(1) show ?thesis by (simp add: updateDocument_def)
qed

lemma pages_read_column_bounds:
  "1 \<le> k \<Longrightarrow> pages_read_column (real_of_int k) = None"
  by (simp add: pages_read_column_def)

text \<open>
  Claim C9: \<open>updateReadingLog(logId, pagesRead)\<close> rejects a \<open>pagesRead\<close> outside
  \<open>[1, 1000]\<close> and leaves the store as it was. When it succeeds, the entry returned is the
  stored entry with that id, with only \<open>pages_read\<close> and the update time changed: its log
  date, owner and id are the same, as are those of every other row, and the profiles. It
  succeeds for every existing entry and every integer in \<open>[1, 1000]\<close>, whatever the entry's
  date and the current time: the date window is not checked again. (The document-store
  variant stores \<open>parseInt(pagesRead)\<close>.)
\<close>

theorem updateReadingLog_frame:
  "(pagesRead < 1 \<or> pagesRead > 1000 \<longrightarrow>
      updateReadingLog_supabase now b logId pagesRead =
        (Inl (Error ''Pages must be between 1 and 1000''), b) \<and>
      updateReadingLog_appwrite now b logId pagesRead =
        (Inl (Error ''Pages must be between 1 and 1000''), b)) \<and>
   (updateReadingLog_supabase now b logId pagesRead = (Inr row', b') \<longrightarrow>
      (\<exists>r \<in> set (reading_logs b). row_id r = logId \<and>
          row' = r\<lparr>pages_read := pagesRead, updated_at := now\<rparr> \<and>
          log_date row' = log_date r \<and> user_id row' = user_id r \<and> row_id row' = row_id r) \<and>
      reading_logs b' =
        map (\<lambda>r. if row_id r = logId then r\<lparr>pages_read := pagesRead, updated_at := now\<rparr> else r)
          (reading_logs b) \<and>
      map log_date (reading_logs b') = map log_date (reading_logs b) \<and>
      map user_id (reading_logs b') = map user_id (reading_logs b) \<and>
      profiles b' = profiles b \<and> online b' = online b) \<and>
   (updateReadingLog_appwrite now b logId pagesRead = (Inr row', b') \<longrightarrow>
      (\<exists>r \<in> set (reading_logs b). row_id r = logId \<and>
          row' = r\<lparr>pages_read := parseInt pagesRead, updated_at := now\<rparr> \<and>
          log_date row' = log_date r \<and> user_id row' = user_id r \<and> row_id row' = row_id r) \<and>
      reading_logs b' =
        map (\<lambda>r. if row_id r = logId
                 then r\<lparr>pages_read := parseInt pagesRead, updated_at := now\<rparr> else r)
          (reading_logs b) \<and>
      map log_date (reading_logs b') = map log_date (reading_logs b) \<and>
      map user_id (reading_logs b') = map user_id (reading_logs b) \<and>
      profiles b' = profiles b \<and> online b' = online b) \<and>
   (online b \<and> filter (\<lambda>r. row_id r = logId) (reading_logs b) = [entry] \<and> 1 \<le> k \<and> k \<le> 1000 \<longrightarrow>
      fst (updateReadingLog_supabase now b logId (real_of_int k)) =
        Inr (entry\<lparr>pages_read := real_of_int k, updated_at := now\<rparr>) \<and>
      fst (updateReadingLog_appwrite now b logId (real_of_int k)) =
        Inr (entry\<lparr>pages_read := real_of_int k, updated_at := now\<rparr>))"
proof (intro conjI impI)
  assume "pagesRead < 1 \<or> pagesRead > 1000"
  then show "updateReadingLog_supabase now b logId pagesRead =
        (Inl (Error ''Pages must be between 1 and 1000''), b)"
    and "updateReadingLog_appwrite now b logId pagesRead =
        (Inl (Error ''Pages must be between 1 and 1000''), b)"
    by (simp_all add: updateReadingLog_supabase_guard updateReadingLog_appwrite_guard)
next
  assume a: "updateReadingLog_supabase now b logId pagesRead = (Inr row', b')"
  let ?f = "\<lambda>r. r\<lparr>pages_read := pagesRead, updated_at := now\<rparr>"
  from a have "update_log b ?f logId = (Data row', b')"
    by (auto simp add: updateReadingLog_supabase_def split: if_splits prod.splits response.splits)
  from update_log_Data [OF this] obtain r where
    r: "r \<in> set (reading_logs b)" "row_id r = logId" "row' = ?f r"
    and b': "b' = b\<lparr>reading_logs := map (\<lambda>r. if row_id r = logId then ?f r else r) (reading_logs b)\<rparr>"
    by blast
  from r show "\<exists>r \<in> set (reading_logs b). row_id r = logId \<and>
          row' = r\<lparr>pages_read := pagesRead, updated_at := now\<rparr> \<and>
          log_date row' = log_date r \<and> user_id row' = user_id r \<and> row_id row' = row_id r"
    by auto
  from b' show "reading_logs b' =
        map (\<lambda>r. if row_id r = logId then r\<lparr>pages_read := pagesRead, updated_at := now\<rparr> else r)
          (reading_logs b)"
    by simp
  from b' show "map log_date (reading_logs b') = map log_date (reading_logs b)"
    by (simp add: comp_def if_distrib [of log_date] cong: if_cong)
  from b' show "map user_id (reading_logs b') = map user_id (reading_logs b)"
    by (simp add: comp_def if_distrib [of user_id] cong: if_cong)
  from b' show "profiles b' = profiles b" "online b' = online b"
    by simp_all
next
  assume a: "updateReadingLog_appwrite now b logId pagesRead = (Inr row', b')"
  let ?f = "\<lambda>r. r\<lparr>pages_read := parseInt pagesRead\<rparr>"
  from a have "updateDocument b now logId ?f = (Data row', b')"
    by (auto simp add: updateReadingLog_appwrite_def split: if_splits prod.splits response.splits)
  from updateDocument_Data [OF this] obtain r where
    r: "r \<in> set (reading_logs b)" "row_id r = logId" "row' = (?f r)\<lparr>updated_at := now\<rparr>"
    and b': "b' = b\<lparr>reading_logs :=
       map (\<lambda>r. if row_id r = logId then (?f r)\<lparr>updated_at := now\<rparr> else r) (reading_logs b)\<rparr>"
    by blast
  from r show "\<exists>r \<in> set (reading_logs b). row_id r = logId \<and>
          row' = r\<lparr>pages_read := parseInt pagesRead, updated_at := now\<rparr> \<and>
          log_date row' = log_date r \<and> user_id row' = user_id r \<and> row_id row' = row_id r"
    by auto
  from b' show "reading_logs b' =
        map (\<lambda>r. if row_id r = logId
                 then r\<lparr>pages_read := parseInt pagesRead, updated_at := now\<rparr> else r)
          (reading_logs b)"
    by simp
  from b' show "map log_date (reading_logs b') = map log_date (reading_logs b)"
    by (simp add: comp_def if_distrib [of log_date] cong: if_cong)
  from b' show "map user_id (reading_logs b') = map user_id (reading_logs b)"
    by (simp add: comp_def if_distrib [of user_id] cong: if_cong)
  from b' show "profiles b' = profiles b" "online b' = online b"
    by simp_all
next
  assume a: "online b \<and> filter (\<lambda>r. row_id r = logId) (reading_logs b) = [entry] \<and> 1 \<le> k \<and> k \<le> 1000"
  then have g: "\<not> (real_of_int k < 1 \<or> real_of_int k > 1000)" by simp
  from a have "fst (update_log b (\<lambda>r. r\<lparr>pages_read := real_of_int k, updated_at := now\<rparr>) logId)
      = Data (entry\<lparr>pages_read := real_of_int k, updated_at := now\<rparr>)"
    by (intro update_log_accepts) (simp_all add: pages_read_column_bounds)
  with g show "fst (updateReadingLog_supabase now b logId (real_of_int k)) =
        Inr (entry\<lparr>pages_read := real_of_int k, updated_at := now\<rparr>)"
    by (cases "update_log b (\<lambda>r. r\<lparr>pages_read := real_of_int k, updated_at := now\<rparr>) logId")
       (auto simp add: updateReadingLog_supabase_def)
  from a have "fst (updateDocument b now logId (\<lambda>r. r\<lparr>pages_read := parseInt (real_of_int k)\<rparr>))
      = Data (entry\<lparr>pages_read := parseInt (real_of_int k), updated_at := now\<rparr>)"
    using updateDocument_accepts [of b logId entry now "\<lambda>r. r\<lparr>pages_read := parseInt (real_of_int k)\<rparr>"]
    by simp
  with g show "fst (updateReadingLog_appwrite now b logId (real_of_int k)) =
        Inr (entry\<lparr>pages_read := real_of_int k, updated_at := now\<rparr>)"
    by (cases "updateDocument b now logId (\<lambda>r. r\<lparr>pages_read := parseInt (real_of_int k)\<rparr>)")
       (auto simp add: updateReadingLog_appwrite_def parseInt_of_int)
qed

text \<open>
  On 2024-01-15 the entry of 2023-12-31, far outside the window, takes 12 pages in both
  variants; no log date and no owner changes; 1001 pages are refused.
\<close>

theorem updateReadingLog_frame_witness:
  "\<not> isDateInRange 330 1705300000000 19722 3 \<and>
   fst (updateReadingLog_supabase 1705300000000 demo_backend ''5'' 12) =
     Inr \<lparr>row_id = ''5'', user_id = ''A'', log_date = 19722, pages_read = 12,
          updated_at = 1705300000000\<rparr> \<and>
   fst (updateReadingLog_appwrite 1705300000000 demo_backend ''5'' 12) =
     Inr \<lparr>row_id = ''5'', user_id = ''A'', log_date = 19722, pages_read = 12,
          updated_at = 1705300000000\<rparr> \<and>
   map log_date (reading_logs (snd (updateReadingLog_supabase 1705300000000 demo_backend ''5'' 12)))
     = [19723, 19724, 19725, 19730, 19722] \<and>
   map user_id (reading_logs (snd (updateReadingLog_supabase 1705300000000 demo_backend ''5'' 12)))
     = [''A'', ''B'', ''C'', ''B'', ''A''] \<and>
   updateReadingLog_supabase 1705300000000 demo_backend ''5'' 1001 =
     (Inl (Error ''Pages must be between 1 and 1000''), demo_backend)"
proof -
  let ?entry = "\<lparr>row_id = ''5'', user_id = ''A'', log_date = 19722, pages_read = 500,
                 updated_at = 0\<rparr>"
  let ?U = "updateReadingLog_supabase 1705300000000 demo_backend ''5'' 12"
  have d: "\<not> isDateInRange 330 1705300000000 19722 3"
    by code_simp
  have h: "online demo_backend"
    "filter (\<lambda>r. row_id r = ''5'') (reading_logs demo_backend) = [?entry]"
    by (simp_all add: demo_backend_def)
  have k: "(1::int) \<le> 12" "(12::int) \<le> 1000" "(1001::real) > 1000"
    by simp_all
  have dates: "map log_date (reading_logs demo_backend) = [19723, 19724, 19725, 19730, 19722]"
    and users: "map user_id (reading_logs demo_backend) = [''A'', ''B'', ''C'', ''B'', ''A'']"
    by (simp_all add: demo_backend_def)
  note ok = updateReadingLog_frame [where now = 1705300000000 and b = demo_backend
      and logId = "''5''" and k = 12 and entry = ?entry and pagesRead = 1001]
  from ok h k have f: "fst ?U = Inr (?entry\<lparr>pages_read := 12, updated_at := 1705300000000\<rparr>)"
    and f': "fst (updateReadingLog_appwrite 1705300000000 demo_backend ''5'' 12)
       = Inr (?entry\<lparr>pages_read := 12, updated_at := 1705300000000\<rparr>)"
    and g: "updateReadingLog_supabase 1705300000000 demo_backend ''5'' 1001 =
     (Inl (Error ''Pages must be between 1 and 1000''), demo_backend)"
    by simp_all
  from f have "?U = (Inr (?entry\<lparr>pages_read := 12, updated_at := 1705300000000\<rparr>), snd ?U)"
    by (metis prod.collapse)
  with updateReadingLog_frame [where now = 1705300000000 and b = demo_backend
      and logId = "''5''" and pagesRead = 12
      and row' = "?entry\<lparr>pages_read := 12, updated_at := 1705300000000\<rparr>" and b' = "snd ?U"]
  have "map log_date (reading_logs (snd ?U)) = map log_date (reading_logs demo_backend)"
    and "map user_id (reading_logs (snd ?U)) = map user_id (reading_logs demo_backend)"
    by blast+
  with d f f' g dates users show ?thesis
    by simp
qed

section \<open>Properties of the log list of the dashboard\<close>

lemma sorted_take_le:
  assumes "sorted (map f ys)" and "x \<in> set (take n ys)" and "y \<in> set ys" and "y \<notin> set (take n ys)"
  shows "f x \<le> f y"
proof -
  have "ys = take n ys @ drop n ys" by simp
  with assms(3,4) have "y \<in> set (drop n ys)"
    by (metis Un_iff set_append)
  moreover from assms(1) have "sorted (map f (take n ys) @ map f (drop n ys))"
    by (simp flip: map_append)
  ultimately show ?thesis
    using assms(2) by (auto simp add: sorted_append)
qed

lemma getUserLogs_online:
  "online b \<Longrightarrow> getUserLogs b uid limit =
     take (case limit of None \<Rightarrow> 50 | Some n \<Rightarrow> n)
       (orderDesc_log_date (filter (\<lambda>r. user_id r = uid) (reading_logs b)))"
  by (simp add: getUserLogs_def select_logs_def)

lemma getUserLogs_offline: "\<not> online b \<Longrightarrow> getUserLogs b uid limit = []"
  by (simp add: getUserLogs_def select_logs_def)

lemma sorted_rev_map_take_orderDesc:
  "sorted (rev (map log_date (take n (orderDesc_log_date rows))))"
proof -
  have "sorted (map (\<lambda>r. - log_date r) (orderDesc_log_date rows))"
    unfolding orderDesc_log_date_def by (rule sorted_sort_key)
  then have "sorted (map (\<lambda>r. - log_date r) (take n (orderDesc_log_date rows)))"
    by (simp add: take_map [symmetric] sorted_wrt_take)
  then have "sorted_wrt (\<lambda>x y. log_date y \<le> log_date x) (take n (orderDesc_log_date rows))"
    by (simp add: sorted_map)
  then have "sorted_wrt (\<lambda>x y. y \<le> x) (map log_date (take n (orderDesc_log_date rows)))"
    by (simp add: sorted_wrt_map)
  then show ?thesis
    by (simp add: sorted_wrt_rev)
qed

text \<open>
  Claim C10: called without a limit, \<open>getUserLogs\<close> returns at most 50 entries, latest log
  date first: the first 50 of the user's entries in descending order of log date, so that no
  entry left out is more recent than one returned (and nothing when the request fails). The
  statistics of the dashboard are computed from these entries alone: \<open>daysLogged\<close> is their
  number, never more than 50.
\<close>

theorem getUserLogs_default_limit:
  "(let logs = getUserLogs b uid None in
      length logs \<le> 50 \<and>
      sorted (rev (map log_date logs)) \<and>
      (online b \<longrightarrow>
         logs = take 50 (orderDesc_log_date (filter (\<lambda>r. user_id r = uid) (reading_logs b))) \<and>
         length logs = min 50 (length (filter (\<lambda>r. user_id r = uid) (reading_logs b))) \<and>
         (\<forall>l \<in> set logs. l \<in> set (reading_logs b) \<and> user_id l = uid \<and>
            (\<forall>r \<in> set (reading_logs b). user_id r = uid \<and> r \<notin> set logs \<longrightarrow>
               log_date r \<le> log_date l))) \<and>
      (\<not> online b \<longrightarrow> logs = []) \<and>
      refreshLogs tz now b uid = calculateStats tz now logs \<and>
      daysLogged (refreshLogs tz now b uid) = length logs \<and>
      daysLogged (refreshLogs tz now b uid) \<le> 50)"
proof (cases "online b")
  case False
  then show ?thesis
    by (simp add: getUserLogs_offline refreshLogs_def calculateStats_def)
next
  case True
  let ?rows = "filter (\<lambda>r. user_id r = uid) (reading_logs b)"
  let ?sorted = "orderDesc_log_date ?rows"
  let ?logs = "take 50 ?sorted"
  have logs: "getUserLogs b uid None = ?logs"
    using True by (simp add: getUserLogs_online)
  have len: "length ?logs = min 50 (length ?rows)"
    by (simp add: orderDesc_log_date_def min.commute)
  have set_sorted: "set ?sorted = set ?rows"
    by (simp add: orderDesc_log_date_def)
  have recent: "l \<in> set (reading_logs b) \<and> user_id l = uid \<and>
            (\<forall>r \<in> set (reading_logs b). user_id r = uid \<and> r \<notin> set ?logs \<longrightarrow>
               log_date r \<le> log_date l)" if l: "l \<in> set ?logs" for l
  proof -
    from l have "l \<in> set ?sorted" by (rule in_set_takeD)
    with set_sorted have l': "l \<in> set (reading_logs b)" "user_id l = uid" by auto
    have "log_date r \<le> log_date l"
      if "r \<in> set (reading_logs b)" "user_id r = uid" "r \<notin> set ?logs" for r
    proof -
      from that set_sorted have "r \<in> set ?sorted" by auto
      moreover have "sorted (map (\<lambda>r. - log_date r) ?sorted)"
        unfolding orderDesc_log_date_def by (rule sorted_sort_key)
      ultimately have "- log_date l \<le> - log_date r"
        using l that(3) by (intro sorted_take_le [where ys = ?sorted and n = 50])
      then show ?thesis by simp
    qed
    with l' show ?thesis by blast
  qed
  have days: "daysLogged (calculateStats tz now ?logs) = length ?logs"
    by (simp add: calculateStats_def Let_def)
  have c1: "length ?logs \<le> 50" by simp
  have c2: "sorted (rev (map log_date ?logs))"
    by (rule sorted_rev_map_take_orderDesc)
  have c3: "online b \<longrightarrow>
         ?logs = take 50 (orderDesc_log_date (filter (\<lambda>r. user_id r = uid) (reading_logs b))) \<and>
         length ?logs = min 50 (length (filter (\<lambda>r. user_id r = uid) (reading_logs b))) \<and>
         (\<forall>l \<in> set ?logs. l \<in> set (reading_logs b) \<and> user_id l = uid \<and>
            (\<forall>r \<in> set (reading_logs b). user_id r = uid \<and> r \<notin> set ?logs \<longrightarrow>
               log_date r \<le> log_date l))"
    using len recent by blast
  have c4: "\<not> online b \<longrightarrow> ?logs = []"
    using True by blast
  have c5: "daysLogged (calculateStats tz now ?logs) \<le> 50"
    using days c1 by (simp only:)
  show ?thesis
    unfolding Let_def logs refreshLogs_def
    using c1 c2 c3 c4 c5 days by blast
qed

text \<open>
  User \<open>B\<close> has two entries and sees both, the later first. A user with 51 entries sees
  \<open>daysLogged = 50\<close>.
\<close>

theorem getUserLogs_default_limit_witness:
  "getUserLogs demo_backend ''B'' None =
     [\<lparr>row_id = ''4'', user_id = ''B'', log_date = 19730, pages_read = 30, updated_at = 0\<rparr>,
      \<lparr>row_id = ''2'', user_id = ''B'', log_date = 19724, pages_read = 20, updated_at = 0\<rparr>] \<and>
   daysLogged (refreshLogs 330 1705300000000 demo_backend ''B'') = 2 \<and>
   length (reading_logs busy_backend) = 51 \<and>
   daysLogged (refreshLogs 330 1705300000000 busy_backend ''A'') = 50"
proof -
  have e: "take 50 (orderDesc_log_date (filter (\<lambda>r. user_id r = ''B'') (reading_logs demo_backend)))
     = [\<lparr>row_id = ''4'', user_id = ''B'', log_date = 19730, pages_read = 30, updated_at = 0\<rparr>,
      \<lparr>row_id = ''2'', user_id = ''B'', log_date = 19724, pages_read = 20, updated_at = 0\<rparr>]"
    by code_simp
  have o: "online demo_backend" "online busy_backend"
    by (simp_all add: demo_backend_def busy_backend_def)
  have n: "length (reading_logs busy_backend) = 51"
    "length (filter (\<lambda>r. user_id r = ''A'') (reading_logs busy_backend)) = 51"
    by (simp_all add: busy_backend_def comp_def)
  note demo = getUserLogs_default_limit [of demo_backend "''B''" 330 1705300000000,
      unfolded Let_def]
  note busy = getUserLogs_default_limit [of busy_backend "''A''" 330 1705300000000,
      unfolded Let_def]
  from demo o(1) have "getUserLogs demo_backend ''B'' None =
      take 50 (orderDesc_log_date (filter (\<lambda>r. user_id r = ''B'') (reading_logs demo_backend)))"
    by blast
  with e have 1: "getUserLogs demo_backend ''B'' None =
     [\<lparr>row_id = ''4'', user_id = ''B'', log_date = 19730, pages_read = 30, updated_at = 0\<rparr>,
      \<lparr>row_id = ''2'', user_id = ''B'', log_date = 19724, pages_read = 20, updated_at = 0\<rparr>]"
    by (simp only:)
  from demo have "daysLogged (refreshLogs 330 1705300000000 demo_backend ''B'') =
      length (getUserLogs demo_backend ''B'' None)"
    by blast
  with 1 have 2: "daysLogged (refreshLogs 330 1705300000000 demo_backend ''B'') = 2"
    by simp
  from busy o(2) have "length (getUserLogs busy_backend ''A'' None) =
      min 50 (length (filter (\<lambda>r. user_id r = ''A'') (reading_logs busy_backend)))"
    by blast
  moreover from busy have "daysLogged (refreshLogs 330 1705300000000 busy_backend ''A'') =
      length (getUserLogs busy_backend ''A'' None)"
    by blast
  ultimately have 3: "daysLogged (refreshLogs 330 1705300000000 busy_backend ''A'') = 50"
    using n(2) by simp
  from 1 2 3 n(1) show ?thesis by blast
qed

section \<open>Properties of the leaderboard\<close>

lemma userTotal_append:
  "userTotal (rows @ [(u, p)]) w = userTotal rows w + (if u = w then p else 0)"
  by (simp add: userTotal_def)

lemma userTotal_notin: "u \<notin> fst ` set rows \<Longrightarrow> userTotal rows u = 0"
proof -
  assume "u \<notin> fst ` set rows"
  then have "filter (\<lambda>row. fst row = u) rows = []"
    by (auto simp add: filter_empty_conv)
  then show ?thesis by (simp add: userTotal_def)
qed

lemma map_userId_add_pages: "map userId (add_pages ts u p) = map userId ts"
  by (induction ts) (simp_all add: add_pages_def)

lemma map_totalPages_add_pages:
  "map lb_totalPages (add_pages ts u p) =
     map (\<lambda>e. lb_totalPages e + (if userId e = u then p else 0)) ts"
  by (induction ts) (simp_all add: add_pages_def)

lemma add_pages_absent: "u \<notin> set (map userId ts) \<Longrightarrow> add_pages ts u p = ts"
  by (induction ts) (auto simp add: add_pages_def)

lemma has_key_iff:
  "u \<notin> set prototype_members \<Longrightarrow> has_key ts u \<longleftrightarrow> u \<in> set (map userId ts)"
  by (auto simp add: has_key_def)

lemma has_key_prototype: "u \<in> set prototype_members \<Longrightarrow> has_key ts u"
  by (simp add: has_key_def)

lemma totals_inv_Nil: "totals_inv [] []"
  by (simp add: totals_inv_def)

lemma totals_inv_step:
  assumes inv: "totals_inv rows ts" and v: "userId v = u" "lb_totalPages v = 0"
    and own: "u \<notin> set prototype_members"
  shows "totals_inv (rows @ [(u, p)])
           (add_pages (if \<not> has_key ts u then add_key ts v else ts) u p)"
proof -
  from inv have d: "distinct (map userId ts)"
    and s: "set (map userId ts) = fst ` set rows"
    and t: "map lb_totalPages ts = map (userTotal rows) (map userId ts)"
    by (simp_all add: totals_inv_def)
  from t have t': "\<And>e. e \<in> set ts \<Longrightarrow> lb_totalPages e = userTotal rows (userId e)"
    by (simp add: map_eq_conv)
  show ?thesis
  proof (cases "has_key ts u")
    case True
    then have u: "u \<in> fst ` set rows"
      using s own by (simp add: has_key_iff)
    have "map lb_totalPages (add_pages ts u p) =
          map (userTotal (rows @ [(u, p)])) (map userId (add_pages ts u p))"
      by (simp add: map_totalPages_add_pages map_userId_add_pages userTotal_append t')
    moreover have "set (map userId (add_pages ts u p)) = fst ` set (rows @ [(u, p)])"
      using u s by (auto simp add: map_userId_add_pages)
    ultimately show ?thesis
      using True d by (simp add: totals_inv_def map_userId_add_pages del: set_map)
  next
    case False
    then have u: "u \<notin> set (map userId ts)"
      using own by (simp add: has_key_iff)
    with s have z: "userTotal rows u = 0"
      by (intro userTotal_notin) simp
    let ?ts = "add_key ts v"
    have ids: "map userId ?ts = map userId ts @ [u]"
      by (simp add: add_key_def v)
    have "\<And>e. e \<in> set ?ts \<Longrightarrow> lb_totalPages e = userTotal rows (userId e)"
      using t' z v by (auto simp add: add_key_def)
    then have "map lb_totalPages (add_pages ?ts u p) =
          map (userTotal (rows @ [(u, p)])) (map userId (add_pages ?ts u p))"
      by (simp add: map_totalPages_add_pages map_userId_add_pages userTotal_append)
    moreover have "set (map userId (add_pages ?ts u p)) = fst ` set (rows @ [(u, p)])"
      using s by (auto simp add: map_userId_add_pages ids simp del: set_map)
    moreover have "distinct (map userId (add_pages ?ts u p))"
      using d u by (simp add: map_userId_add_pages ids)
    ultimately show ?thesis
      using False by (simp add: totals_inv_def del: set_map)
  qed
qed

lemma totals_inv_supabase:
  assumes "\<forall>r \<in> set rows. j_user_id r \<notin> set prototype_members"
  shows "totals_inv (map (\<lambda>r. (j_user_id r, j_pages_read r)) rows)
           (foldl aggregate_supabase [] rows)"
  using assms
proof (induction rows rule: rev_induct)
  case Nil
  show ?case by (simp add: totals_inv_Nil)
next
  case (snoc r rows)
  let ?ts = "foldl aggregate_supabase [] rows"
  let ?v = "\<lparr>userId = j_user_id r, lb_username = Some (username (j_profiles r)),
        avatarUrl = avatar_url (j_profiles r), lb_totalPages = 0\<rparr>"
  have e: "foldl aggregate_supabase [] (rows @ [r]) =
      add_pages (if \<not> has_key ?ts (j_user_id r) then add_key ?ts ?v else ?ts)
        (j_user_id r) (j_pages_read r)"
    by (simp add: aggregate_supabase_def Let_def)
  have m: "map (\<lambda>r. (j_user_id r, j_pages_read r)) (rows @ [r]) =
      map (\<lambda>r. (j_user_id r, j_pages_read r)) rows @ [(j_user_id r, j_pages_read r)]"
    by simp
  from snoc.prems have IH: "totals_inv (map (\<lambda>r. (j_user_id r, j_pages_read r)) rows) ?ts"
    by (intro snoc.IH) simp
  from snoc.prems have own: "j_user_id r \<notin> set prototype_members"
    by simp
  show ?case
    unfolding e m by (rule totals_inv_step [OF IH _ _ own]) simp_all
qed

lemma totals_inv_appwrite:
  assumes "\<forall>r \<in> set logs. user_id r \<notin> set prototype_members"
  shows "totals_inv (map (\<lambda>r. (user_id r, pages_read r)) logs) (foldl aggregate_appwrite [] logs)"
  using assms
proof (induction logs rule: rev_induct)
  case Nil
  show ?case by (simp add: totals_inv_Nil)
next
  case (snoc r logs)
  let ?ts = "foldl aggregate_appwrite [] logs"
  let ?v = "\<lparr>userId = user_id r, lb_username = None, avatarUrl = None, lb_totalPages = 0\<rparr>"
  have e: "foldl aggregate_appwrite [] (logs @ [r]) =
      add_pages (if \<not> has_key ?ts (user_id r) then add_key ?ts ?v else ?ts)
        (user_id r) (pages_read r)"
    by (simp add: aggregate_appwrite_def Let_def)
  have m: "map (\<lambda>r. (user_id r, pages_read r)) (logs @ [r]) =
      map (\<lambda>r. (user_id r, pages_read r)) logs @ [(user_id r, pages_read r)]"
    by simp
  from snoc.prems have IH: "totals_inv (map (\<lambda>r. (user_id r, pages_read r)) logs) ?ts"
    by (intro snoc.IH) simp
  from snoc.prems have own: "user_id r \<notin> set prototype_members"
    by simp
  show ?case
    unfolding e m by (rule totals_inv_step [OF IH _ _ own]) simp_all
qed

lemma set_Object_values: "set (Object_values ts) = set ts"
  by (auto simp add: Object_values_def)

lemma distinct_map_sort_key:
  "distinct (map f (sort_key k xs)) \<longleftrightarrow> distinct (map f xs)"
  by (simp add: distinct_map)

lemma distinct_Object_values:
  assumes "distinct (map userId ts)"
  shows "distinct (map userId (Object_values ts))"
proof -
  let ?P = "\<lambda>e. is_array_index (userId e)"
  have 1: "distinct (map userId (sort_key (\<lambda>e. index_value (userId e)) (filter ?P ts)))"
    using assms by (simp add: distinct_map_sort_key distinct_map_filter del: distinct_map)
  have 2: "distinct (map userId (filter (\<lambda>e. \<not> ?P e) ts))"
    using assms by (simp add: distinct_map_filter del: distinct_map)
  have 3: "set (map userId (sort_key (\<lambda>e. index_value (userId e)) (filter ?P ts))) \<inter>
           set (map userId (filter (\<lambda>e. \<not> ?P e) ts)) = {}"
    by auto
  from 1 2 3 show ?thesis
    unfolding Object_values_def map_append distinct_append by blast
qed

lemma totals_inv_Object_values:
  assumes "totals_inv rows ts"
  shows "totals_inv rows (Object_values ts)"
proof -
  from assms have d: "distinct (map userId ts)"
    and s: "set (map userId ts) = fst ` set rows"
    and t: "\<And>e. e \<in> set ts \<Longrightarrow> lb_totalPages e = userTotal rows (userId e)"
    by (simp_all add: totals_inv_def map_eq_conv)
  have "map lb_totalPages (Object_values ts) =
        map (userTotal rows) (map userId (Object_values ts))"
    using t by (simp add: map_eq_conv set_Object_values)
  moreover have "set (map userId (Object_values ts)) = fst ` set rows"
    using s by (simp add: set_Object_values)
  ultimately show ?thesis
    using distinct_Object_values [OF d] by (simp add: totals_inv_def del: set_map distinct_map)
qed

lemma sum_list_insort_key:
  fixes f :: "'a \<Rightarrow> real"
  shows "sum_list (map f (insort_key k x xs)) = f x + sum_list (map f xs)"
  by (induction xs) simp_all

lemma sum_list_sort_key:
  fixes f :: "'a \<Rightarrow> real"
  shows "sum_list (map f (sort_key k xs)) = sum_list (map f xs)"
  by (induction xs) (simp_all add: sum_list_insort_key)

lemma userTotal_map:
  "userTotal (map (\<lambda>r. (user_id r, pages_read r)) xs) u =
     sum_list (map pages_read (filter (\<lambda>r. user_id r = u) xs))"
  by (simp add: userTotal_def filter_map comp_def)

lemma userTotal_sort_key:
  "userTotal (map (\<lambda>r. (user_id r, pages_read r)) (sort_key k xs)) u =
   userTotal (map (\<lambda>r. (user_id r, pages_read r)) xs) u"
  by (simp add: userTotal_map filter_sort sum_list_sort_key)

lemma ranking_of_cong:
  assumes "fst ` set rows = fst ` set rows'" and "\<And>u. userTotal rows u = userTotal rows' u"
  shows "ranking_of rows N board \<longleftrightarrow> ranking_of rows' N board"
proof -
  from assms(2) have t: "userTotal rows = userTotal rows'"
    by (intro ext)
  have "card (set (map fst rows)) = card (set (map fst rows'))"
    using assms(1) by simp
  then have l: "length (remdups (map fst rows)) = length (remdups (map fst rows'))"
    by (simp only: length_remdups_card_conv)
  show ?thesis
    unfolding ranking_of_def t l assms(1) ..
qed

lemma ranking_of_sort_key:
  "ranking_of (map (\<lambda>r. (user_id r, pages_read r)) (sort_key k xs)) N board \<longleftrightarrow>
   ranking_of (map (\<lambda>r. (user_id r, pages_read r)) xs) N board"
  by (rule ranking_of_cong) (simp_all add: userTotal_sort_key image_image)

lemma count_list_filter: "count_list xs y = length (filter (\<lambda>x. x = y) xs)"
  by (induction xs) simp_all

lemma length_filter_take: "length (filter P (take n xs)) \<le> length (filter P xs)"
proof -
  have "length (filter P xs) = length (filter P (take n xs @ drop n xs))"
    by simp
  also have "\<dots> = length (filter P (take n xs)) + length (filter P (drop n xs))"
    by (simp only: filter_append length_append)
  finally show ?thesis by simp
qed

lemma count_list_take_sort_key:
  "count_list (map f (take n (sort_key k xs))) y \<le> count_list (map f xs) y"
proof -
  have "count_list (map f (take n (sort_key k xs))) y =
        length (filter (\<lambda>x. f x = y) (take n (sort_key k xs)))"
    by (simp add: count_list_filter filter_map comp_def)
  also have "\<dots> \<le> length (filter (\<lambda>x. f x = y) (sort_key k xs))"
    by (rule length_filter_take)
  also have "\<dots> = length (filter (\<lambda>x. f x = y) xs)"
    by (simp add: filter_sort)
  also have "\<dots> = count_list (map f xs) y"
    by (simp add: count_list_filter filter_map comp_def)
  finally show ?thesis .
qed

lemma map_userId_withRanks: "map userId (withRanks xs) = map userId xs"
proof -
  have "map userId (withRanks xs) = map (userId \<circ> snd) (enumerate 0 xs)"
    by (simp add: withRanks_def user_total.extend_def case_prod_unfold comp_def)
  then show ?thesis by (simp flip: map_map)
qed

lemma map_totalPages_withRanks: "map lb_totalPages (withRanks xs) = map lb_totalPages xs"
proof -
  have "map lb_totalPages (withRanks xs) = map (lb_totalPages \<circ> snd) (enumerate 0 xs)"
    by (simp add: withRanks_def user_total.extend_def case_prod_unfold comp_def)
  then show ?thesis by (simp flip: map_map)
qed

lemma map_username_withRanks: "map lb_username (withRanks xs) = map lb_username xs"
proof -
  have "map lb_username (withRanks xs) = map (lb_username \<circ> snd) (enumerate 0 xs)"
    by (simp add: withRanks_def user_total.extend_def case_prod_unfold comp_def)
  then show ?thesis by (simp flip: map_map)
qed

lemma length_withRanks: "length (withRanks xs) = length xs"
  by (simp add: withRanks_def)

lemma map_rank_withRanks: "map rank (withRanks xs) = [1..<length xs + 1]"
proof -
  have "map rank (withRanks xs) = map (Suc \<circ> fst) (enumerate 0 xs)"
    by (simp add: withRanks_def user_total.extend_def leaderboard_entry.fields_def
        case_prod_unfold comp_def)
  also have "\<dots> = map Suc [0..<length xs]"
    by (simp flip: map_map)
  finally show ?thesis
    by (simp add: map_Suc_upt)
qed

lemma sorted_rev_totals_sortSlice: "sorted (rev (map lb_totalPages (sortSlice N ts)))"
proof -
  have "sorted (map (\<lambda>e. - lb_totalPages e) (sort_key (\<lambda>e. - lb_totalPages e) ts))"
    by (rule sorted_sort_key)
  then have "sorted (map (\<lambda>e. - lb_totalPages e) (sortSlice N ts))"
    by (simp add: sortSlice_def take_map [symmetric] sorted_wrt_take)
  then have "sorted_wrt (\<lambda>x y. y \<le> x) (map lb_totalPages (sortSlice N ts))"
    by (simp add: sorted_wrt_map)
  then show ?thesis
    by (simp add: sorted_wrt_rev)
qed

lemma ranking_of_sortSlice:
  fixes g :: "user_total \<Rightarrow> user_total"
  assumes inv: "totals_inv rows ts"
    and g: "\<And>e. userId (g e) = userId e" "\<And>e. lb_totalPages (g e) = lb_totalPages e"
  shows "ranking_of rows N (withRanks (map g (sortSlice N ts)))"
proof -
  let ?S = "sortSlice N ts"
  let ?board = "withRanks (map g ?S)"
  from inv have d: "distinct (map userId ts)"
    and s: "set (map userId ts) = fst ` set rows"
    and t: "\<And>e. e \<in> set ts \<Longrightarrow> lb_totalPages e = userTotal rows (userId e)"
    by (simp_all add: totals_inv_def map_eq_conv)
  have sub: "set ?S \<subseteq> set ts"
    by (auto simp add: sortSlice_def dest: in_set_takeD)
  have users: "map userId ?board = map userId ?S"
    by (simp add: map_userId_withRanks g comp_def)
  have totals: "map lb_totalPages ?board = map lb_totalPages ?S"
    by (simp add: map_totalPages_withRanks g comp_def)
  have 1: "distinct (map userId ?S)"
    using d by (simp add: sortSlice_def take_map [symmetric] distinct_map_sort_key distinct_take
        del: distinct_map)
  have 2: "set (map userId ?S) \<subseteq> fst ` set rows"
    using sub s by auto
  have 3: "map lb_totalPages ?S = map (userTotal rows) (map userId ?S)"
    using sub t by (auto simp add: map_eq_conv)
  have 4: "sorted (rev (map lb_totalPages ?S))"
    by (rule sorted_rev_totals_sortSlice)
  have 5: "\<forall>u \<in> fst ` set rows - set (map userId ?S).
        \<forall>x \<in> set (map lb_totalPages ?S). userTotal rows u \<le> x"
  proof (intro ballI)
    fix u x
    assume u: "u \<in> fst ` set rows - set (map userId ?S)"
      and x: "x \<in> set (map lb_totalPages ?S)"
    from u have "u \<in> fst ` set rows" by simp
    with s have "u \<in> set (map userId ts)" by (simp del: set_map)
    then obtain e where e: "e \<in> set ts" "userId e = u"
      by auto
    with u have notin: "e \<notin> set ?S" by auto
    from x obtain y where y: "y \<in> set ?S" "x = lb_totalPages y" by auto
    have "- lb_totalPages y \<le> - lb_totalPages e"
    proof (rule sorted_take_le [where ys = "sort_key (\<lambda>e. - lb_totalPages e) ts" and n = N])
      show "sorted (map (\<lambda>e. - lb_totalPages e) (sort_key (\<lambda>e. - lb_totalPages e) ts))"
        by (rule sorted_sort_key)
      show "y \<in> set (take N (sort_key (\<lambda>e. - lb_totalPages e) ts))"
        using y(1) by (simp add: sortSlice_def)
      show "e \<in> set (sort_key (\<lambda>e. - lb_totalPages e) ts)"
        using e(1) by simp
      show "e \<notin> set (take N (sort_key (\<lambda>e. - lb_totalPages e) ts))"
        using notin by (simp add: sortSlice_def)
    qed
    with e t [OF e(1)] y(2) show "userTotal rows u \<le> x" by simp
  qed
  have "length ts = card (set (map userId ts))"
    using d by (metis distinct_card length_map)
  also have "\<dots> = card (set (map fst rows))"
    using s by simp
  also have "\<dots> = length (remdups (map fst rows))"
    by (simp only: length_remdups_card_conv)
  finally have 6: "length ?board = min N (length (remdups (map fst rows)))"
    by (simp add: length_withRanks sortSlice_def min.commute)
  have 7: "map rank ?board = [1..<length ?board + 1]"
    by (simp add: map_rank_withRanks length_withRanks)
  show ?thesis
    unfolding ranking_of_def users totals
    using 1 2 3 4 5 6 7 by blast
qed

lemma ranking_of_Nil: "ranking_of [] N []"
  by (simp add: ranking_of_def)

lemma withRanks_Nil: "withRanks [] = []"
  by (simp add: withRanks_def)

lemma sortSlice_Nil: "sortSlice N [] = []"
  by (simp add: sortSlice_def)

lemma Object_values_Nil: "Object_values [] = []"
  by (simp add: Object_values_def)

lemma join_pairs:
  "map (\<lambda>r. (j_user_id r, j_pages_read r))
     (concat (map (\<lambda>r. case List.find (\<lambda>p. profile_id p = user_id r) ps of
                          None \<Rightarrow> []
                        | Some p \<Rightarrow> [\<lparr>j_user_id = user_id r, j_pages_read = pages_read r,
                                      j_profiles = p\<rparr>])
                xs)) =
   map (\<lambda>r. (user_id r, pages_read r))
     (filter (\<lambda>r. \<exists>p \<in> set ps. profile_id p = user_id r) xs)"
proof (induction xs)
  case Nil
  show ?case by simp
next
  case (Cons x xs)
  show ?case
  proof (cases "List.find (\<lambda>p. profile_id p = user_id x) ps")
    case None
    then have "\<not> (\<exists>p \<in> set ps. profile_id p = user_id x)"
      by (simp add: find_None_iff)
    with None Cons show ?thesis by simp
  next
    case (Some p)
    then have "\<exists>p \<in> set ps. profile_id p = user_id x"
      by (auto simp add: find_Some_iff)
    with Some Cons show ?thesis by simp
  qed
qed

text \<open>The rows the relational query answers with, as pairs of owner and pages.\<close>

lemma getLeaderboard_supabase_online:
  assumes "online b"
  shows "\<exists>rows. select_logs_join_profiles b listing
             (\<lambda>r. formatDateForInput tz (getMonthStart tz now) \<le> log_date r) = Data rows \<and>
           map (\<lambda>r. (j_user_id r, j_pages_read r)) rows =
             map (\<lambda>r. (user_id r, pages_read r))
               (sort_key listing
                  (filter (\<lambda>r. formatDateForInput tz (getMonthStart tz now) \<le> log_date r \<and>
                               (\<exists>p \<in> set (profiles b). profile_id p = user_id r))
                     (reading_logs b))) \<and>
           getLeaderboard_supabase tz now listing b N =
             withRanks (sortSlice N (Object_values (foldl aggregate_supabase [] rows)))"
proof -
  let ?P = "\<lambda>r. formatDateForInput tz (getMonthStart tz now) \<le> log_date r"
  obtain rows where rows: "select_logs_join_profiles b listing ?P = Data rows"
    using assms by (simp add: select_logs_join_profiles_def list_logs_def)
  with assms have "map (\<lambda>r. (j_user_id r, j_pages_read r)) rows =
      map (\<lambda>r. (user_id r, pages_read r))
        (sort_key listing
           (filter (\<lambda>r. ?P r \<and> (\<exists>p \<in> set (profiles b). profile_id p = user_id r))
              (reading_logs b)))"
    by (auto simp add: select_logs_join_profiles_def list_logs_def join_pairs filter_sort)
  moreover have "getLeaderboard_supabase tz now listing b N =
             withRanks (sortSlice N (Object_values (foldl aggregate_supabase [] rows)))"
    using rows by (cases rows) (simp_all add: getLeaderboard_supabase_def Let_def
        withRanks_Nil sortSlice_Nil Object_values_Nil)
  ultimately show ?thesis using rows by blast
qed

lemma getLeaderboard_supabase_offline:
  "\<not> online b \<Longrightarrow> getLeaderboard_supabase tz now listing b N = []"
  by (simp add: getLeaderboard_supabase_def select_logs_join_profiles_def list_logs_def)

lemma fetched_appwrite_online:
  "online b \<Longrightarrow> fetched_appwrite tz now listing b =
     Data (take 100 (sort_key listing
       (filter (\<lambda>r. formatDateForInput tz (getMonthStart tz now) \<le> log_date r)
          (reading_logs b))))"
  by (simp add: fetched_appwrite_def list_logs_def)

lemma fetched_appwrite_offline:
  "\<not> online b \<Longrightarrow> fetched_appwrite tz now listing b = Failure ''network''"
  by (simp add: fetched_appwrite_def list_logs_def)

lemma userId_resolveProfile: "userId (resolveProfile b e) = userId e"
  by (simp add: resolveProfile_def split: option.splits)

lemma totalPages_resolveProfile: "lb_totalPages (resolveProfile b e) = lb_totalPages e"
  by (simp add: resolveProfile_def split: option.splits)

text \<open>
  The relational board ranks the rows of the month whose owner has a profile, whatever the
  order the backend lists them in.
\<close>

lemma ranking_supabase:
  assumes own: "\<forall>r \<in> set (reading_logs b). user_id r \<notin> set prototype_members"
  shows "ranking_of (monthRows_supabase tz now b) N (getLeaderboard_supabase tz now listing b N)"
proof (cases "online b")
  case False
  then show ?thesis
    by (simp add: getLeaderboard_supabase_offline monthRows_supabase_def ranking_of_Nil)
next
  case True
  let ?Z = "filter (\<lambda>r. formatDateForInput tz (getMonthStart tz now) \<le> log_date r \<and>
                        (\<exists>p \<in> set (profiles b). profile_id p = user_id r)) (reading_logs b)"
  from getLeaderboard_supabase_online [OF True, of listing tz now N] obtain rows where
    rows: "map (\<lambda>r. (j_user_id r, j_pages_read r)) rows =
             map (\<lambda>r. (user_id r, pages_read r)) (sort_key listing ?Z)"
    and board: "getLeaderboard_supabase tz now listing b N =
             withRanks (sortSlice N (Object_values (foldl aggregate_supabase [] rows)))"
    by blast
  have "map j_user_id rows = map user_id (sort_key listing ?Z)"
  proof -
    have "map fst (map (\<lambda>r. (j_user_id r, j_pages_read r)) rows) =
          map fst (map (\<lambda>r. (user_id r, pages_read r)) (sort_key listing ?Z))"
      by (simp only: rows)
    then show ?thesis by (simp add: comp_def)
  qed
  then have "set (map j_user_id rows) \<subseteq> user_id ` set (reading_logs b)"
    by auto
  with own have own': "\<forall>r \<in> set rows. j_user_id r \<notin> set prototype_members"
    by auto
  have "ranking_of (map (\<lambda>r. (j_user_id r, j_pages_read r)) rows) N
          (withRanks (map (\<lambda>e. e) (sortSlice N (Object_values (foldl aggregate_supabase [] rows)))))"
    by (rule ranking_of_sortSlice [OF totals_inv_Object_values [OF totals_inv_supabase [OF own']]])
       simp_all
  with board have "ranking_of (map (\<lambda>r. (user_id r, pages_read r)) (sort_key listing ?Z)) N
          (getLeaderboard_supabase tz now listing b N)"
    by (simp add: rows)
  then have "ranking_of (map (\<lambda>r. (user_id r, pages_read r)) ?Z) N
          (getLeaderboard_supabase tz now listing b N)"
    by (simp only: ranking_of_sort_key)
  then show ?thesis
    using True by (simp add: monthRows_supabase_def)
qed

text \<open>The document-store board ranks the rows it fetched.\<close>

lemma ranking_appwrite:
  assumes own: "\<forall>r \<in> set (reading_logs b). user_id r \<notin> set prototype_members"
  shows "ranking_of (monthRows_appwrite tz now listing b) N
           (getLeaderboard_appwrite tz now listing b N)"
proof (cases "online b")
  case False
  then show ?thesis
    by (simp add: getLeaderboard_appwrite_def fetched_appwrite_offline monthRows_appwrite_def
        ranking_of_Nil withRanks_Nil)
next
  case True
  let ?logs = "take 100 (sort_key listing
       (filter (\<lambda>r. formatDateForInput tz (getMonthStart tz now) \<le> log_date r)
          (reading_logs b)))"
  have m: "monthRows_appwrite tz now listing b = map (\<lambda>r. (user_id r, pages_read r)) ?logs"
    using True by (simp add: monthRows_appwrite_def)
  have "set ?logs \<subseteq> set (reading_logs b)"
    by (auto dest: in_set_takeD)
  with own have own': "\<forall>r \<in> set ?logs. user_id r \<notin> set prototype_members"
    by blast
  have "ranking_of (map (\<lambda>r. (user_id r, pages_read r)) ?logs) N
          (withRanks (map (resolveProfile b)
             (sortSlice N (Object_values (foldl aggregate_appwrite [] ?logs)))))"
    by (rule ranking_of_sortSlice [OF totals_inv_Object_values [OF totals_inv_appwrite [OF own']]])
       (simp_all add: userId_resolveProfile totalPages_resolveProfile)
  then show ?thesis
    unfolding m using True
    by (simp add: getLeaderboard_appwrite_def fetched_appwrite_online topTotals_appwrite_def)
qed

lemma monthRows_appwrite_few:
  assumes "length (monthRows_all tz now b) \<le> 100"
  shows "ranking_of (monthRows_appwrite tz now listing b) N board \<longleftrightarrow>
         ranking_of (monthRows_all tz now b) N board"
proof (cases "online b")
  case False
  then show ?thesis
    by (simp add: monthRows_appwrite_def monthRows_all_def)
next
  case True
  let ?Z = "filter (\<lambda>r. formatDateForInput tz (getMonthStart tz now) \<le> log_date r)
              (reading_logs b)"
  from assms True have "length ?Z \<le> 100"
    by (simp add: monthRows_all_def)
  then have "take 100 (sort_key listing ?Z) = sort_key listing ?Z"
    by simp
  then have "monthRows_appwrite tz now listing b =
      map (\<lambda>r. (user_id r, pages_read r)) (sort_key listing ?Z)"
    using True by (simp add: monthRows_appwrite_def)
  moreover have "monthRows_all tz now b = map (\<lambda>r. (user_id r, pages_read r)) ?Z"
    using True by (simp add: monthRows_all_def)
  ultimately show ?thesis
    by (simp only: ranking_of_sort_key)
qed

lemma monthRows_appwrite_length:
  "length (monthRows_appwrite tz now listing b) = min 100 (length (monthRows_all tz now b))"
  by (simp add: monthRows_appwrite_def monthRows_all_def min.commute)

lemma monthRows_appwrite_count:
  "count_list (monthRows_appwrite tz now listing b) row \<le> count_list (monthRows_all tz now b) row"
  by (simp add: monthRows_appwrite_def monthRows_all_def count_list_take_sort_key)

text \<open>
  Claim C7, amended: in a store none of whose user ids names a member of \<open>Object.prototype\<close>,
  for every limit \<open>N\<close> and whatever the order the backend lists rows in, \<open>getLeaderboard(N)\<close>
  groups the entries it aggregates by owning user, sums \<open>pages_read\<close> per user, sorts
  descending by total, keeps the top \<open>N\<close> and ranks them 1, 2, ... in list order. The
  relational variant aggregates the entries dated on or after the first day of the current
  month whose owner has a profile. The document store aggregates at most 100 of the entries
  dated on or after that day, which of them being the backend's choice: 100 of them, or all
  when they are fewer, no entry more often than the month has it; when the month has at most
  100 entries the board ranks them all.
\<close>

theorem getLeaderboard_ranking:
  "(\<forall>r \<in> set (reading_logs b). user_id r \<notin> set prototype_members) \<longrightarrow>
   ranking_of (monthRows_supabase tz now b) N (getLeaderboard_supabase tz now listing b N) \<and>
   ranking_of (monthRows_appwrite tz now listing b) N
     (getLeaderboard_appwrite tz now listing b N) \<and>
   length (monthRows_appwrite tz now listing b) = min 100 (length (monthRows_all tz now b)) \<and>
   (\<forall>row. count_list (monthRows_appwrite tz now listing b) row
           \<le> count_list (monthRows_all tz now b) row) \<and>
   (length (monthRows_all tz now b) \<le> 100 \<longrightarrow>
      ranking_of (monthRows_all tz now b) N (getLeaderboard_appwrite tz now listing b N))"
proof
  assume own: "\<forall>r \<in> set (reading_logs b). user_id r \<notin> set prototype_members"
  have 1: "ranking_of (monthRows_supabase tz now b) N (getLeaderboard_supabase tz now listing b N)"
    by (rule ranking_supabase [OF own])
  have 2: "ranking_of (monthRows_appwrite tz now listing b) N
     (getLeaderboard_appwrite tz now listing b N)"
    by (rule ranking_appwrite [OF own])
  have 3: "length (monthRows_appwrite tz now listing b) = min 100 (length (monthRows_all tz now b))"
    by (rule monthRows_appwrite_length)
  have 4: "\<forall>row. count_list (monthRows_appwrite tz now listing b) row
           \<le> count_list (monthRows_all tz now b) row"
    by (simp add: monthRows_appwrite_count)
  have 5: "length (monthRows_all tz now b) \<le> 100 \<longrightarrow>
      ranking_of (monthRows_all tz now b) N (getLeaderboard_appwrite tz now listing b N)"
  proof
    assume few: "length (monthRows_all tz now b) \<le> 100"
    from 2 show "ranking_of (monthRows_all tz now b) N (getLeaderboard_appwrite tz now listing b N)"
      by (simp only: monthRows_appwrite_few [OF few])
  qed
  from 1 2 3 4 5 show
   "ranking_of (monthRows_supabase tz now b) N (getLeaderboard_supabase tz now listing b N) \<and>
    ranking_of (monthRows_appwrite tz now listing b) N
     (getLeaderboard_appwrite tz now listing b N) \<and>
    length (monthRows_appwrite tz now listing b) = min 100 (length (monthRows_all tz now b)) \<and>
    (\<forall>row. count_list (monthRows_appwrite tz now listing b) row
           \<le> count_list (monthRows_all tz now b) row) \<and>
    (length (monthRows_all tz now b) \<le> 100 \<longrightarrow>
      ranking_of (monthRows_all tz now b) N (getLeaderboard_appwrite tz now listing b N))"
    by blast
qed

text \<open>
  The example of the specification: this month \<open>A\<close> has 30 pages, \<open>B\<close> and \<open>C\<close> have 50 each, and
  \<open>A\<close> has 500 pages on the last day of the month before. With limit 2 both variants list \<open>B\<close>
  and \<open>C\<close>, ranks 1 and 2, in either listing.
\<close>

theorem getLeaderboard_ranking_witness:
  "set (map user_id (reading_logs demo_backend)) \<inter> set prototype_members = {} \<and>
   length (monthRows_all 330 1705300000000 demo_backend) \<le> 100 \<and>
   ranking_of (monthRows_supabase 330 1705300000000 demo_backend) 2
     (getLeaderboard_supabase 330 1705300000000 recent_first demo_backend 2) \<and>
   ranking_of (monthRows_appwrite 330 1705300000000 recent_first demo_backend) 2
     (getLeaderboard_appwrite 330 1705300000000 recent_first demo_backend 2) \<and>
   ranking_of (monthRows_all 330 1705300000000 demo_backend) 2
     (getLeaderboard_appwrite 330 1705300000000 recent_first demo_backend 2) \<and>
   monthRows_all 330 1705300000000 demo_backend =
     [(''A'', 30), (''B'', 20), (''C'', 50), (''B'', 30)] \<and>
   monthRows_supabase 330 1705300000000 demo_backend =
     [(''A'', 30), (''B'', 20), (''C'', 50), (''B'', 30)] \<and>
   getLeaderboard_supabase 330 1705300000000 recent_first demo_backend 2 =
     [\<lparr>userId = ''B'', lb_username = Some ''bob'', avatarUrl = None, lb_totalPages = 50, rank = 1\<rparr>,
      \<lparr>userId = ''C'', lb_username = Some ''carol'', avatarUrl = None, lb_totalPages = 50, rank = 2\<rparr>] \<and>
   getLeaderboard_appwrite 330 1705300000000 recent_first demo_backend 2 =
     [\<lparr>userId = ''B'', lb_username = Some ''bob'', avatarUrl = None, lb_totalPages = 50, rank = 1\<rparr>,
      \<lparr>userId = ''C'', lb_username = Some ''carol'', avatarUrl = None, lb_totalPages = 50, rank = 2\<rparr>]"
proof -
  have own: "\<forall>r \<in> set (reading_logs demo_backend). user_id r \<notin> set prototype_members"
    by code_simp
  have few: "length (monthRows_all 330 1705300000000 demo_backend) \<le> 100"
    by code_simp
  have rows: "monthRows_all 330 1705300000000 demo_backend =
     [(''A'', 30), (''B'', 20), (''C'', 50), (''B'', 30)]"
    "monthRows_supabase 330 1705300000000 demo_backend =
     [(''A'', 30), (''B'', 20), (''C'', 50), (''B'', 30)]"
    by code_simp+
  have boards: "getLeaderboard_supabase 330 1705300000000 recent_first demo_backend 2 =
     [\<lparr>userId = ''B'', lb_username = Some ''bob'', avatarUrl = None, lb_totalPages = 50, rank = 1\<rparr>,
      \<lparr>userId = ''C'', lb_username = Some ''carol'', avatarUrl = None, lb_totalPages = 50, rank = 2\<rparr>]"
    "getLeaderboard_appwrite 330 1705300000000 recent_first demo_backend 2 =
     [\<lparr>userId = ''B'', lb_username = Some ''bob'', avatarUrl = None, lb_totalPages = 50, rank = 1\<rparr>,
      \<lparr>userId = ''C'', lb_username = Some ''carol'', avatarUrl = None, lb_totalPages = 50, rank = 2\<rparr>]"
    by code_simp+
  from getLeaderboard_ranking [of demo_backend 330 1705300000000 2 recent_first] own few
  have "ranking_of (monthRows_supabase 330 1705300000000 demo_backend) 2
     (getLeaderboard_supabase 330 1705300000000 recent_first demo_backend 2)"
    "ranking_of (monthRows_appwrite 330 1705300000000 recent_first demo_backend) 2
     (getLeaderboard_appwrite 330 1705300000000 recent_first demo_backend 2)"
    "ranking_of (monthRows_all 330 1705300000000 demo_backend) 2
     (getLeaderboard_appwrite 330 1705300000000 recent_first demo_backend 2)"
    by blast+
  moreover from own
  have "set (map user_id (reading_logs demo_backend)) \<inter> set prototype_members = {}"
    by auto
  ultimately show ?thesis
    using few rows boards by blast
qed

text \<open>
  At the end of January 2024 the store holds 101 entries of the month, \<open>Y\<close> and \<open>Z\<close> having 1000
  pages each and nobody else more than 25: the claim puts \<open>Y\<close> and \<open>Z\<close> on a board of two.
  The document-store variant aggregates 100 entries. Listing the latest additions first it
  leaves out the entry of \<open>Y\<close>, in storage order that of \<open>Z\<close>; either way a user with 25 pages
  takes rank 2.
\<close>

theorem getLeaderboard_ranking_counterexample:
  "length (monthRows_all 330 1706600000000 crowded_backend) = 101 \<and>
   userTotal (monthRows_all 330 1706600000000 crowded_backend) ''Y'' = 1000 \<and>
   userTotal (monthRows_all 330 1706600000000 crowded_backend) ''Z'' = 1000 \<and>
   userTotal (monthRows_all 330 1706600000000 crowded_backend) ''A'' = 25 \<and>
   getLeaderboard_appwrite 330 1706600000000 recent_first crowded_backend 2 =
     [\<lparr>userId = ''Z'', lb_username = Some ''Unknown User'', avatarUrl = None,
        lb_totalPages = 1000, rank = 1\<rparr>,
      \<lparr>userId = ''A'', lb_username = Some ''Unknown User'', avatarUrl = None,
        lb_totalPages = 25, rank = 2\<rparr>] \<and>
   getLeaderboard_appwrite 330 1706600000000 storage_order crowded_backend 2 =
     [\<lparr>userId = ''Y'', lb_username = Some ''Unknown User'', avatarUrl = None,
        lb_totalPages = 1000, rank = 1\<rparr>,
      \<lparr>userId = ''A'', lb_username = Some ''Unknown User'', avatarUrl = None,
        lb_totalPages = 25, rank = 2\<rparr>] \<and>
   \<not> ranking_of (monthRows_all 330 1706600000000 crowded_backend) 2
       (getLeaderboard_appwrite 330 1706600000000 recent_first crowded_backend 2) \<and>
   \<not> ranking_of (monthRows_all 330 1706600000000 crowded_backend) 2
       (getLeaderboard_appwrite 330 1706600000000 storage_order crowded_backend 2)"
proof -
  let ?rows = "monthRows_all 330 1706600000000 crowded_backend"
  have n: "length ?rows = 101"
    by code_simp
  have y: "userTotal ?rows ''Y'' = 1000"
    by code_simp
  have z: "userTotal ?rows ''Z'' = 1000"
    by code_simp
  have a: "userTotal ?rows ''A'' = 25"
    by code_simp
  have recent: "getLeaderboard_appwrite 330 1706600000000 recent_first crowded_backend 2 =
     [\<lparr>userId = ''Z'', lb_username = Some ''Unknown User'', avatarUrl = None,
        lb_totalPages = 1000, rank = 1\<rparr>,
      \<lparr>userId = ''A'', lb_username = Some ''Unknown User'', avatarUrl = None,
        lb_totalPages = 25, rank = 2\<rparr>]"
    by code_simp
  have storage: "getLeaderboard_appwrite 330 1706600000000 storage_order crowded_backend 2 =
     [\<lparr>userId = ''Y'', lb_username = Some ''Unknown User'', avatarUrl = None,
        lb_totalPages = 1000, rank = 1\<rparr>,
      \<lparr>userId = ''A'', lb_username = Some ''Unknown User'', avatarUrl = None,
        lb_totalPages = 25, rank = 2\<rparr>]"
    by code_simp
  have yin: "(''Y'', 1000) \<in> set ?rows"
    by code_simp
  have zin: "(''Z'', 1000) \<in> set ?rows"
    by code_simp
  have 1: "\<not> ranking_of ?rows 2
       (getLeaderboard_appwrite 330 1706600000000 recent_first crowded_backend 2)"
  proof
    assume "ranking_of ?rows 2
       (getLeaderboard_appwrite 330 1706600000000 recent_first crowded_backend 2)"
    then have "\<forall>u \<in> fst ` set ?rows - {''Z'', ''A''}. \<forall>t \<in> {1000, 25}. userTotal ?rows u \<le> t"
      unfolding recent ranking_of_def by simp
    moreover have "''Y'' \<in> fst ` set ?rows - {''Z'', ''A''}"
      using yin by force
    ultimately have "userTotal ?rows ''Y'' \<le> 25"
      by blast
    with y show False by simp
  qed
  have 2: "\<not> ranking_of ?rows 2
       (getLeaderboard_appwrite 330 1706600000000 storage_order crowded_backend 2)"
  proof
    assume "ranking_of ?rows 2
       (getLeaderboard_appwrite 330 1706600000000 storage_order crowded_backend 2)"
    then have "\<forall>u \<in> fst ` set ?rows - {''Y'', ''A''}. \<forall>t \<in> {1000, 25}. userTotal ?rows u \<le> t"
      unfolding storage ranking_of_def by simp
    moreover have "''Z'' \<in> fst ` set ?rows - {''Y'', ''A''}"
      using zin by force
    ultimately have "userTotal ?rows ''Z'' \<le> 25"
      by blast
    with z show False by simp
  qed
  from n y z a recent storage 1 2 show ?thesis
    by blast
qed

text \<open>
  A user whose id names a member of \<open>Object.prototype\<close> gets no entry in \<open>userTotals\<close> and is
  not listed, whatever the pages.
\<close>

lemma getLeaderboard_prototype_key:
  "map userId (getLeaderboard_appwrite 330 1705300000000 storage_order
     (concurrent_insert
        \<lparr>row_id = ''9'', user_id = ''constructor'', log_date = 19730, pages_read = 900,
          updated_at = 0\<rparr> demo_backend) 4) = [''B'', ''C'', ''A'']"
  by code_simp











end
